theory Spec2Isabelle
  imports Main "HOL-Library.AList"
begin

section \<open>Data model\<close>

text \<open>
  The model follows \<^verbatim>\<open>scripts/multisend.mjs\<close> (the scripted driver, function
  \<^verbatim>\<open>main\<close> and its helpers) and \<^verbatim>\<open>frontend/src/App.tsx\<close> (the UI event handler
  \<^verbatim>\<open>onSend\<close> with \<^verbatim>\<open>normalized\<close> and \<^verbatim>\<open>estimateChunkSize\<close>). JavaScript
  \<^verbatim>\<open>bigint\<close> values are \<open>int\<close>; counters and indices are \<open>nat\<close>; the configuration
  numbers (\<^verbatim>\<open>Number(process.env...)\<close>) are taken to be integers.
\<close>

text \<open>An input entry \<^verbatim>\<open>{ address, amountStr }\<close>, as \<^verbatim>\<open>loadRecipients\<close> returns it.\<close>

record entry =
  address :: string
  amountStr :: string

text \<open>A validated entry \<^verbatim>\<open>{ address, amountStr, amt }\<close>.\<close>

record valid_entry = entry +
  amt :: int

text \<open>The UI's \<^verbatim>\<open>CsvRow = { address, amount }\<close> and \<^verbatim>\<open>ParsedEntry\<close>.\<close>

record csv_row =
  rowAddress :: string
  amount :: string

record parsed_entry = entry +
  amountWei :: int

text \<open>
  A JavaScript \<^verbatim>\<open>Set\<close> keeps its elements in insertion order and ignores the
  insertion of an element it already holds: a list without repetitions.
\<close>

definition set_add :: "'a \<Rightarrow> 'a list \<Rightarrow> 'a list" where
  "set_add k s = (if k \<in> set s then s else s @ [k])"

definition add_all :: "'a list \<Rightarrow> 'a list \<Rightarrow> 'a list" where
  "add_all s ks = foldl (\<lambda>acc k. set_add k acc) s ks"

definition new_Set :: "'a list \<Rightarrow> 'a list" where
  "new_Set ks = add_all [] ks"

text \<open>\<^verbatim>\<open>array.slice(i, j)\<close> for \<open>i \<le> j\<close>: the elements at the indices \<open>i, ..., j - 1\<close> that exist.\<close>

definition slice :: "'a list \<Rightarrow> nat \<Rightarrow> nat \<Rightarrow> 'a list" where
  "slice array i j = take (j - i) (drop i array)"

section \<open>The environment: library, remote endpoint, file system\<close>

text \<open>
  What a remote call throws: the code reads \<^verbatim>\<open>e?.status\<close> and \<^verbatim>\<open>e?.message\<close>
  only (an absent message is the empty string).
\<close>

record rpc_error =
  status :: "int option"
  message :: string

text \<open>
  The functions of the \<^verbatim>\<open>ethers\<close> library that the code calls are parameters:
  \<^verbatim>\<open>getAddress\<close> (\<open>None\<close>: it throws), \<^verbatim>\<open>isAddress\<close>, \<^verbatim>\<open>parseUnits\<close> and
  \<^verbatim>\<open>parseEther\<close> (\<open>None\<close>: they throw). So is the floating-point product
  \<^verbatim>\<open>BigInt(Math.floor(Number(blockGasLimit) * MAX_GAS_FRACTION))\<close> of the script
  (\<open>None\<close>: \<^verbatim>\<open>BigInt\<close> throws a RangeError on a value that is not finite) and
  \<^verbatim>\<open>BigInt(Math.floor(Number(blockGasLimit) * 0.8))\<close> of the UI.
\<close>

record lib =
  getAddress :: "string \<Rightarrow> string option"
  isAddress :: "string \<Rightarrow> bool"
  parseUnits :: "string \<Rightarrow> int \<Rightarrow> int option"
  parseEther :: "string \<Rightarrow> int option"
  gasBudgetOf :: "int \<Rightarrow> int option"
  gasBudget80 :: "int \<Rightarrow> int"

text \<open>The remote operations the code issues, with their arguments.\<close>

datatype request =
    TokenDecimals
  | TokenAllowance
  | TokenApprove int
  | TxWait string
  | GetBalance
  | GetBlock
  | EstimateGasNative "string list" "int list" int
  | EstimateGasERC20 "string list" "int list"
  | BatchTransferNative "string list" "int list" int
  | BatchTransferERC20 "string list" "int list"

text \<open>The content of the checkpoint file: session identifier to \<^verbatim>\<open>sentKeys\<close>.\<close>

type_synonym checkpoints = "(string \<times> string list) list"

datatype ckfile = Absent | Unreadable | Doc checkpoints

text \<open>
  The behaviour of the remote endpoint and of the file system is a parameter too. The
  first argument of every remote operation is the number of remote invocations issued
  before it, so an operation may answer differently each time it is invoked; an answer
  is \<open>Inl e\<close> (the call throws \<open>e\<close>) or \<open>Inr v\<close>. A transaction is its hash; the
  receipt of \<^verbatim>\<open>tx.wait()\<close> is its \<^verbatim>\<open>gasUsed\<close>; the answer of \<^verbatim>\<open>getBlock\<close> is
  \<^verbatim>\<open>latest?.gasLimit\<close>. \<open>Math_random k\<close> decides the jitter drawn after the failure of
  invocation \<open>k\<close>. \<open>writeFileSync k\<close> is the outcome of a write issued after \<open>k\<close> file
  system operations: \<open>None\<close> when it succeeds, \<open>Some f\<close> when it throws and leaves the
  file as \<open>f\<close>.
\<close>

record remote =
  token_decimals :: "nat \<Rightarrow> rpc_error + int"
  token_allowance :: "nat \<Rightarrow> rpc_error + int"
  token_approve :: "nat \<Rightarrow> int \<Rightarrow> rpc_error + string"
  tx_wait :: "nat \<Rightarrow> string \<Rightarrow> rpc_error + int option"
  provider_getBalance :: "nat \<Rightarrow> rpc_error + int"
  provider_getBlock :: "nat \<Rightarrow> rpc_error + int option"
  estimateGas_native :: "nat \<Rightarrow> string list \<Rightarrow> int list \<Rightarrow> int \<Rightarrow> rpc_error + int"
  estimateGas_erc20 :: "nat \<Rightarrow> string list \<Rightarrow> int list \<Rightarrow> rpc_error + int"
  batchTransferNative :: "nat \<Rightarrow> string list \<Rightarrow> int list \<Rightarrow> int \<Rightarrow> rpc_error + string"
  batchTransferERC20 :: "nat \<Rightarrow> string list \<Rightarrow> int list \<Rightarrow> rpc_error + string"
  Math_random :: "nat \<Rightarrow> nat"
  writeFileSync :: "nat \<Rightarrow> ckfile option"

text \<open>
  The state the code acts on: the remote invocations issued so far, each with whether
  it returned, and the waits of \<^verbatim>\<open>sleep\<close>; the checkpoint file and the file system
  operations issued on it; the warnings printed with \<^verbatim>\<open>console.warn\<close>. The pacing of
  \<^verbatim>\<open>limitPace\<close> reads the clock and only suspends the caller: it is not modelled, and
  neither are the messages printed under \<^verbatim>\<open>verbose\<close> or with \<^verbatim>\<open>console.log\<close>.
\<close>

record rpc_state =
  calls :: "(request \<times> bool) list"
  sleeps :: "int list"

datatype fs_event = ExistsSync | ReadFileSync | WriteFileSync checkpoints

record fs_state =
  ckfile :: ckfile
  fslog :: "fs_event list"

datatype warning = WarnCheckpointRead | WarnCheckpointWrite | WarnDecimals

record world =
  rpc :: rpc_state
  fs :: fs_state
  console :: "warning list"

text \<open>The configuration that \<^verbatim>\<open>main\<close> reads from the environment and the arguments.\<close>

record config =
  RETRY_MAX_ATTEMPTS :: int
  RETRY_BASE_MS :: int
  RETRY_MAX_MS :: int
  SLEEP_BETWEEN_TX_MS :: int
  DISABLE_CHECKPOINTS :: bool
  isNative :: bool
  decimalsOverride :: "int option"
  sessionId :: string

text \<open>What \<^verbatim>\<open>main\<close> throws.\<close>

datatype main_error =
    DuplicateAddresses "string list"
  | AmountParseError string
  | NoValidRecipients
  | RemoteFailure rpc_error
  | InsufficientNativeBalance int int
  | GasBudgetRangeError

section \<open>The Paced Retry Executor\<close>

text \<open>
  \<^verbatim>\<open>
  function isRateLimitError(e) {
    const msg = String(e?.message || '').toLowerCase();
    return e?.status === 429 || /429|rate limit|too many requests/.test(msg);
  }
  \<close>
  (\<open>toLowerCase\<close> on the ASCII letters.)
\<close>

definition toLowerCase :: "string \<Rightarrow> string" where
  "toLowerCase s =
     map (\<lambda>c. let n = (of_char c :: nat) in if 65 \<le> n \<and> n \<le> 90 then char_of (n + 32) else c) s"

fun str_includes :: "string \<Rightarrow> string \<Rightarrow> bool" where
  "str_includes pat [] = (pat = [])"
| "str_includes pat (c # cs) = (take (length pat) (c # cs) = pat \<or> str_includes pat cs)"

definition isRateLimitError :: "rpc_error \<Rightarrow> bool" where
  "isRateLimitError e =
     (let msg = toLowerCase (message e)
      in status e = Some 429
         \<or> str_includes ''429'' msg \<or> str_includes ''rate limit'' msg
         \<or> str_includes ''too many requests'' msg)"

text \<open>One invocation of a remote operation: it answers, and the invocation is recorded.\<close>

definition invoke ::
  "request \<Rightarrow> (nat \<Rightarrow> rpc_error + 'a) \<Rightarrow> rpc_state \<Rightarrow> (rpc_error + 'a) \<times> rpc_state" where
  "invoke req fn s =
     (let r = fn (length (calls s))
      in (r, s\<lparr>calls := calls s @ [(req, \<not> isl r)]\<rparr>))"

text \<open>
  \<^verbatim>\<open>
  async function callWithRetry(fn, label = 'rpc') {
    let attempt = 0;
    let delay = RETRY_BASE_MS;
    for (;;) {
      try {
        await limitPace();
        return await fn();
      } catch (e) {
        attempt++;
        const rateLimited = isRateLimitError(e);
        if (!rateLimited && attempt >= RETRY_MAX_ATTEMPTS) throw e;
        if (attempt >= RETRY_MAX_ATTEMPTS) throw e;
        const jitter = Math.floor(Math.random() * Math.max(1, Math.floor(delay * 0.2)));
        const waitMs = Math.min(delay + jitter, RETRY_MAX_MS);
        await sleep(waitMs);
        delay = Math.min(delay * 2, RETRY_MAX_MS);
      }
    }
  }
  \<close>
  The loop ends because \<open>attempt\<close> grows towards the integer \<open>RETRY_MAX_ATTEMPTS\<close>.
\<close>

function callWithRetry_loop ::
  "config \<Rightarrow> remote \<Rightarrow> request \<Rightarrow> (nat \<Rightarrow> rpc_error + 'a) \<Rightarrow> int \<Rightarrow> int \<Rightarrow> rpc_state
     \<Rightarrow> (rpc_error + 'a) \<times> rpc_state" where
  "callWithRetry_loop cfg R req fn attempt delay s =
     (case invoke req fn s of
        (Inr v, s1) \<Rightarrow> (Inr v, s1)
      | (Inl e, s1) \<Rightarrow>
          (let attempt1 = attempt + 1;
               rateLimited = isRateLimitError e
           in if \<not> rateLimited \<and> attempt1 \<ge> RETRY_MAX_ATTEMPTS cfg then (Inl e, s1)
              else if attempt1 \<ge> RETRY_MAX_ATTEMPTS cfg then (Inl e, s1)
              else (let jitter = int (Math_random R (length (calls s))) mod max 1 (delay div 5);
                        waitMs = min (delay + jitter) (RETRY_MAX_MS cfg);
                        s2 = s1\<lparr>sleeps := sleeps s1 @ [waitMs]\<rparr>
                    in callWithRetry_loop cfg R req fn attempt1
                         (min (delay * 2) (RETRY_MAX_MS cfg)) s2)))"
  by pat_completeness auto
termination
  by (relation "measure (\<lambda>(cfg, R, req, fn, attempt, delay, s).
                  nat (RETRY_MAX_ATTEMPTS cfg - attempt))") auto

declare callWithRetry_loop.simps [simp del]

definition callWithRetry ::
  "config \<Rightarrow> remote \<Rightarrow> request \<Rightarrow> (nat \<Rightarrow> rpc_error + 'a) \<Rightarrow> rpc_state
     \<Rightarrow> (rpc_error + 'a) \<times> rpc_state" where
  "callWithRetry cfg R req fn s = callWithRetry_loop cfg R req fn 0 (RETRY_BASE_MS cfg) s"

section \<open>Chunk partitioning\<close>

text \<open>
  \<^verbatim>\<open>
  function chunk(array, size) {
    const chunks = [];
    for (let i = 0; i < array.length; i += size) {
      chunks.push(array.slice(i, i + size));
    }
    return chunks;
  }
  \<close>
  (the arrow function \<^verbatim>\<open>chunk\<close> inside \<^verbatim>\<open>onSend\<close> of App.tsx is the same loop). The
  parameter \<^verbatim>\<open>size\<close> is \<open>sz\<close> here. With \<open>sz = 0\<close> and a non-empty array the loop
  never ends, so the loop is a partial function and not returning is the value \<open>None\<close>.
\<close>

partial_function (option) chunk_loop ::
  "'a list \<Rightarrow> nat \<Rightarrow> nat \<Rightarrow> 'a list list \<Rightarrow> 'a list list option" where
  "chunk_loop array sz i chunks =
     (if i < length array
      then chunk_loop array sz (i + sz) (chunks @ [slice array i (i + sz)])
      else Some chunks)"

declare chunk_loop.simps [code]

definition chunk :: "'a list \<Rightarrow> nat \<Rightarrow> 'a list list option" where
  "chunk array sz = chunk_loop array sz 0 []"

section \<open>The Capacity Prober\<close>

text \<open>
  The search is the same code in \<^verbatim>\<open>main\<close> (multisend.mjs) and in
  \<^verbatim>\<open>estimateChunkSize\<close> (App.tsx); the two differ in the estimator they call. An
  estimate is \<^verbatim>\<open>null\<close> (\<open>None\<close>) or a \<^verbatim>\<open>bigint\<close>; \<^verbatim>\<open>0n\<close> is falsy like \<^verbatim>\<open>null\<close>.
  \<open>notSafe\<close> is \<^verbatim>\<open>!est || est >= gasBudget\<close>, \<open>isSafe\<close> is \<^verbatim>\<open>est && est < gasBudget\<close>.
\<close>

definition notSafe :: "int \<Rightarrow> int option \<Rightarrow> bool" where
  "notSafe gasBudget est = (case est of None \<Rightarrow> True | Some g \<Rightarrow> g = 0 \<or> g \<ge> gasBudget)"

definition isSafe :: "int \<Rightarrow> int option \<Rightarrow> bool" where
  "isSafe gasBudget est = (case est of None \<Rightarrow> False | Some g \<Rightarrow> g \<noteq> 0 \<and> g < gasBudget)"

text \<open>
  \<^verbatim>\<open>
  for (let test = 1; test <= high; test *= 2) {
    const est = await estimateForCount(test);
    if (!est || est >= gasBudget) {
      high = test;
      break;
    } else {
      safe = test;
      low = test;
    }
    if (test === high) break;
  }
  \<close>
  The result is \<open>(low, high, safe)\<close> after the loop. From \<open>test = 0\<close> the loop need not
  end, so it is a partial function.
\<close>

partial_function (option) doubling ::
  "(nat \<Rightarrow> 's \<Rightarrow> int option \<times> 's) \<Rightarrow> int \<Rightarrow> nat \<Rightarrow> nat \<Rightarrow> nat \<Rightarrow> nat \<Rightarrow> 's
     \<Rightarrow> ((nat \<times> nat \<times> nat) \<times> 's) option" where
  "doubling estimate gasBudget test low high safe s =
     (if test \<le> high
      then (case estimate test s of
              (est, s1) \<Rightarrow>
                if notSafe gasBudget est then Some ((low, test, safe), s1)
                else if test = high then Some ((test, high, test), s1)
                else doubling estimate gasBudget (test * 2) test high test s1)
      else Some ((low, high, safe), s))"

declare doubling.simps [code]

text \<open>
  \<^verbatim>\<open>
  while (low + 1 < high) {
    const mid = Math.floor((low + high) / 2);
    const est = await estimateForCount(mid);
    if (est && est < gasBudget) {
      safe = mid;
      low = mid;
    } else {
      high = mid;
    }
  }
  \<close>
\<close>

function binary_search ::
  "(nat \<Rightarrow> 's \<Rightarrow> int option \<times> 's) \<Rightarrow> int \<Rightarrow> nat \<Rightarrow> nat \<Rightarrow> nat \<Rightarrow> 's \<Rightarrow> nat \<times> 's" where
  "binary_search estimate gasBudget low high safe s =
     (if low + 1 < high
      then (let mid = (low + high) div 2
            in case estimate mid s of
                 (est, s1) \<Rightarrow>
                   if isSafe gasBudget est
                   then binary_search estimate gasBudget mid high mid s1
                   else binary_search estimate gasBudget low mid safe s1)
      else (safe, s))"
  by pat_completeness auto
termination
  by (relation "measure (\<lambda>(estimate, gasBudget, low, high, safe, s). high - low)") auto

declare binary_search.simps [simp del]

text \<open>
  \<^verbatim>\<open>let low = 1; let high = ...; let safe = 1;\<close>, the two loops, and
  \<^verbatim>\<open>Math.max(1, safe)\<close>. \<open>high0\<close> is \<^verbatim>\<open>Math.min(recipients.length, 512)\<close>.
\<close>

definition searchChunkSize ::
  "(nat \<Rightarrow> 's \<Rightarrow> int option \<times> 's) \<Rightarrow> int \<Rightarrow> nat \<Rightarrow> 's \<Rightarrow> (nat \<times> 's) option" where
  "searchChunkSize estimate gasBudget high0 s =
     (case doubling estimate gasBudget 1 1 high0 1 s of
        None \<Rightarrow> None
      | Some ((low, high, safe), s1) \<Rightarrow>
          (case binary_search estimate gasBudget low high safe s1 of
             (safe2, s2) \<Rightarrow> Some (max 1 safe2, s2)))"

text \<open>
  \<^verbatim>\<open>
  async function estimateForCount(count) {
    const r = recipients.slice(0, count);
    const a = amounts.slice(0, count);
    try {
      if (isNative) {
        const val = a.reduce((x, y) => x + y, 0n);
        const est = await callWithRetry(() =>
          batch.batchTransferNative.estimateGas(r, a, { value: val }), 'estimateGas.native');
        return est;
      } else {
        const est = await callWithRetry(() =>
          batch.batchTransferERC20.estimateGas(tokenAddress, r, a), 'estimateGas.erc20');
        return est;
      }
    } catch (e) {
      return null;
    }
  }
  \<close>
\<close>

definition estimateForCount ::
  "config \<Rightarrow> remote \<Rightarrow> string list \<Rightarrow> int list \<Rightarrow> nat \<Rightarrow> rpc_state
     \<Rightarrow> int option \<times> rpc_state" where
  "estimateForCount cfg R recipients amounts count s =
     (let r = slice recipients 0 count;
          a = slice amounts 0 count
      in case (if isNative cfg
               then (let val = sum_list a
                     in callWithRetry cfg R (EstimateGasNative r a val)
                          (\<lambda>k. estimateGas_native R k r a val) s)
               else callWithRetry cfg R (EstimateGasERC20 r a)
                      (\<lambda>k. estimateGas_erc20 R k r a) s) of
           (Inr est, s1) \<Rightarrow> (Some est, s1)
         | (Inl e, s1) \<Rightarrow> (None, s1))"

section \<open>The scripted driver: \<^verbatim>\<open>main\<close>\<close>

text \<open>
  The model of \<^verbatim>\<open>main\<close> starts where the entries have been loaded
  (\<^verbatim>\<open>const entries = await loadRecipients(input)\<close>).

  \<^verbatim>\<open>
  const seenAddresses = new Set();
  const duplicateAddresses = new Set();
  for (const { address } of entries) {
    try {
      const norm = ethers.getAddress(address);
      if (seenAddresses.has(norm)) duplicateAddresses.add(norm);
      else seenAddresses.add(norm);
    } catch (_) { }
  }
  \<close>
\<close>

fun duplicateCheck ::
  "lib \<Rightarrow> string list \<Rightarrow> string list \<Rightarrow> entry list \<Rightarrow> string list" where
  "duplicateCheck L seenAddresses duplicateAddresses [] = duplicateAddresses"
| "duplicateCheck L seenAddresses duplicateAddresses (e # es) =
     (case getAddress L (address e) of
        None \<Rightarrow> duplicateCheck L seenAddresses duplicateAddresses es
      | Some norm \<Rightarrow>
          if norm \<in> set seenAddresses
          then duplicateCheck L seenAddresses (set_add norm duplicateAddresses) es
          else duplicateCheck L (set_add norm seenAddresses) duplicateAddresses es)"

text \<open>
  \<^verbatim>\<open>
  let checkpoints = {};
  if (!DISABLE_CHECKPOINTS && fs.existsSync(CHECKPOINT_FILE)) {
    try {
      checkpoints = JSON.parse(fs.readFileSync(CHECKPOINT_FILE, 'utf8')) || {};
    } catch (e) {
      console.warn(`[Checkpoint] Failed to read ${CHECKPOINT_FILE}, starting fresh`);
      checkpoints = {};
    }
  }
  \<close>
\<close>

definition loadCheckpoints :: "config \<Rightarrow> world \<Rightarrow> checkpoints \<times> world" where
  "loadCheckpoints cfg w =
     (if DISABLE_CHECKPOINTS cfg then ([], w)
      else (let f = fs w;
                f1 = f\<lparr>fslog := fslog f @ [ExistsSync]\<rparr>
            in case ckfile f of
                 Absent \<Rightarrow> ([], w\<lparr>fs := f1\<rparr>)
               | Doc d \<Rightarrow> (d, w\<lparr>fs := f1\<lparr>fslog := fslog f1 @ [ReadFileSync]\<rparr>\<rparr>)
               | Unreadable \<Rightarrow>
                   ([], w\<lparr>fs := f1\<lparr>fslog := fslog f1 @ [ReadFileSync]\<rparr>,
                            console := console w @ [WarnCheckpointRead]\<rparr>)))"

text \<open>\<^verbatim>\<open>new Set((checkpoints[sessionId]?.sentKeys) || [])\<close>\<close>

definition sessionKeys :: "string \<Rightarrow> checkpoints \<Rightarrow> string list" where
  "sessionKeys sid cps = (case map_of cps sid of None \<Rightarrow> [] | Some ks \<Rightarrow> ks)"

text \<open>\<^verbatim>\<open>const makeKey = (address, amountStr) => `${address}|${amountStr}`;\<close>\<close>

definition makeKey :: "string \<Rightarrow> string \<Rightarrow> string" where
  "makeKey a s = a @ ''|'' @ s"

text \<open>
  \<^verbatim>\<open>
  let decimals = 18;
  if (!isNative) {
    if (decimalsOverride !== undefined) {
      decimals = decimalsOverride;
    } else {
      try {
        decimals = await callWithRetry(() => token.decimals(), 'token.decimals');
      } catch (e) {
        console.warn('Token decimals() not available; defaulting to 18. ...');
        decimals = 18;
      }
    }
  } else {
    decimals = 18;
  }
  \<close>
\<close>

definition fetchDecimals :: "config \<Rightarrow> remote \<Rightarrow> world \<Rightarrow> int \<times> world" where
  "fetchDecimals cfg R w =
     (if \<not> isNative cfg
      then (case decimalsOverride cfg of
              Some d \<Rightarrow> (d, w)
            | None \<Rightarrow>
                (case callWithRetry cfg R TokenDecimals (token_decimals R) (rpc w) of
                   (Inr d, s1) \<Rightarrow> (d, w\<lparr>rpc := s1\<rparr>)
                 | (Inl e, s1) \<Rightarrow> (18, w\<lparr>rpc := s1, console := console w @ [WarnDecimals]\<rparr>)))
      else (18, w))"

text \<open>
  \<^verbatim>\<open>
  const validEntries = [];
  let skippedInvalid = 0;
  let skippedZero = 0;
  for (const { address, amountStr } of entries) {
    if (!ethers.isAddress(address)) { skippedInvalid++; continue; }
    const amt = isNative ? ethers.parseEther(amountStr) : ethers.parseUnits(amountStr, decimals);
    if (amt <= 0n) { skippedZero++; continue; }
    const key = makeKey(address, amountStr);
    if (DISABLE_CHECKPOINTS || !sentKeys.has(key)) {
      validEntries.push({ address, amountStr, amt });
    }
  }
  \<close>
  The accumulator is \<open>(validEntries, skippedInvalid, skippedZero)\<close>.
\<close>

fun validateEntries ::
  "lib \<Rightarrow> config \<Rightarrow> int \<Rightarrow> string list \<Rightarrow> entry list \<Rightarrow> valid_entry list \<times> nat \<times> nat
     \<Rightarrow> main_error + valid_entry list \<times> nat \<times> nat" where
  "validateEntries L cfg decimals sentKeys [] acc = Inr acc"
| "validateEntries L cfg decimals sentKeys (e # es) (validEntries, skippedInvalid, skippedZero) =
     (if \<not> isAddress L (address e)
      then validateEntries L cfg decimals sentKeys es
             (validEntries, skippedInvalid + 1, skippedZero)
      else (case (if isNative cfg then parseEther L (amountStr e)
                  else parseUnits L (amountStr e) decimals) of
              None \<Rightarrow> Inl (AmountParseError (amountStr e))
            | Some a \<Rightarrow>
                if a \<le> 0
                then validateEntries L cfg decimals sentKeys es
                       (validEntries, skippedInvalid, skippedZero + 1)
                else (let key = makeKey (address e) (amountStr e)
                      in if DISABLE_CHECKPOINTS cfg \<or> key \<notin> set sentKeys
                         then validateEntries L cfg decimals sentKeys es
                                (validEntries
                                   @ [\<lparr>address = address e, amountStr = amountStr e, amt = a\<rparr>],
                                 skippedInvalid, skippedZero)
                         else validateEntries L cfg decimals sentKeys es
                                (validEntries, skippedInvalid, skippedZero))))"

text \<open>
  \<^verbatim>\<open>
  if (!isNative) {
    const allowance = await callWithRetry(() =>
      token.allowance(wallet.address, batchAddress), 'token.allowance');
    if (allowance < total) {
      const tx = await callWithRetry(() => token.approve(batchAddress, total), 'token.approve');
      await callWithRetry(() => tx.wait(), 'tx.wait');
    }
  } else {
    const balance = await callWithRetry(() =>
      provider.getBalance(wallet.address), 'provider.getBalance');
    if (balance < total) {
      throw new Error(`Insufficient native balance. ...`);
    }
  }
  \<close>
\<close>

definition authorize ::
  "config \<Rightarrow> remote \<Rightarrow> int \<Rightarrow> rpc_state \<Rightarrow> (main_error + unit) \<times> rpc_state" where
  "authorize cfg R totl s =
     (if \<not> isNative cfg
      then (case callWithRetry cfg R TokenAllowance (token_allowance R) s of
              (Inl e, s1) \<Rightarrow> (Inl (RemoteFailure e), s1)
            | (Inr allowance, s1) \<Rightarrow>
                if allowance < totl
                then (case callWithRetry cfg R (TokenApprove totl)
                             (\<lambda>k. token_approve R k totl) s1 of
                        (Inl e, s2) \<Rightarrow> (Inl (RemoteFailure e), s2)
                      | (Inr tx, s2) \<Rightarrow>
                          (case callWithRetry cfg R (TxWait tx) (\<lambda>k. tx_wait R k tx) s2 of
                             (Inl e, s3) \<Rightarrow> (Inl (RemoteFailure e), s3)
                           | (Inr rcpt, s3) \<Rightarrow> (Inr (), s3)))
                else (Inr (), s1))
      else (case callWithRetry cfg R GetBalance (provider_getBalance R) s of
              (Inl e, s1) \<Rightarrow> (Inl (RemoteFailure e), s1)
            | (Inr balance, s1) \<Rightarrow>
                if balance < totl then (Inl (InsufficientNativeBalance totl balance), s1)
                else (Inr (), s1)))"

text \<open>
  \<^verbatim>\<open>
  const latest = await callWithRetry(() => provider.getBlock('latest'), 'provider.getBlock');
  const blockGasLimit = latest?.gasLimit ?? 30_000_000n;
  const gasBudget = BigInt(Math.floor(Number(blockGasLimit) * MAX_GAS_FRACTION));
  \<close>
\<close>

definition fetchGasBudget ::
  "lib \<Rightarrow> config \<Rightarrow> remote \<Rightarrow> rpc_state \<Rightarrow> (main_error + int) \<times> rpc_state" where
  "fetchGasBudget L cfg R s =
     (case callWithRetry cfg R GetBlock (provider_getBlock R) s of
        (Inl e, s1) \<Rightarrow> (Inl (RemoteFailure e), s1)
      | (Inr latest, s1) \<Rightarrow>
          (let blockGasLimit = (case latest of None \<Rightarrow> 30000000 | Some g \<Rightarrow> g)
           in case gasBudgetOf L blockGasLimit of
                None \<Rightarrow> (Inl GasBudgetRangeError, s1)
              | Some gasBudget \<Rightarrow> (Inr gasBudget, s1)))"

text \<open>
  The checkpoint update after a confirmed chunk:
  \<^verbatim>\<open>
  if (!DISABLE_CHECKPOINTS) {
    const newlySent = entriesChunk.map(e => makeKey(e.address, e.amountStr));
    const updated = new Set(sentKeys);
    newlySent.forEach(k => updated.add(k));
    checkpoints[sessionId] = { sentKeys: Array.from(updated) };
    try {
      fs.writeFileSync(CHECKPOINT_FILE, JSON.stringify(checkpoints, null, 2));
    } catch (e) {
      console.warn(`[Checkpoint] Failed to write ${CHECKPOINT_FILE}:`, e);
    }
    newlySent.forEach(k => sentKeys.add(k));
  }
  \<close>
  The local state of the run is \<open>(sentKeys, checkpoints)\<close>.
\<close>

definition markSent ::
  "config \<Rightarrow> remote \<Rightarrow> valid_entry list \<Rightarrow> string list \<times> checkpoints \<times> world
     \<Rightarrow> string list \<times> checkpoints \<times> world" where
  "markSent cfg R entriesChunk st =
     (case st of (sentKeys, checkpoints, w) \<Rightarrow>
        if \<not> DISABLE_CHECKPOINTS cfg
        then (let newlySent = map (\<lambda>e. makeKey (address e) (amountStr e)) entriesChunk;
                  updated = add_all (new_Set sentKeys) newlySent;
                  checkpoints1 = AList.update (sessionId cfg) updated checkpoints;
                  f = fs w;
                  f1 = f\<lparr>fslog := fslog f @ [WriteFileSync checkpoints1]\<rparr>;
                  w1 = (case writeFileSync R (length (fslog f)) of
                          None \<Rightarrow> w\<lparr>fs := f1\<lparr>ckfile := Doc checkpoints1\<rparr>\<rparr>
                        | Some left \<Rightarrow>
                            w\<lparr>fs := f1\<lparr>ckfile := left\<rparr>,
                               console := console w @ [WarnCheckpointWrite]\<rparr>)
              in (add_all sentKeys newlySent, checkpoints1, w1))
        else (sentKeys, checkpoints, w))"

text \<open>
  \<^verbatim>\<open>
  for (let i = 0; i < entryChunks.length; i++) {
    const entriesChunk = entryChunks[i];
    const r = entriesChunk.map(e => e.address);
    const a = entriesChunk.map(e => e.amt);
    const sum = a.reduce((x, y) => x + y, 0n);
    try {
      let tx, rcpt;
      if (isNative) {
        tx = await callWithRetry(() => batch.batchTransferNative(r, a, { value: sum }), ...);
      } else {
        tx = await callWithRetry(() => batch.batchTransferERC20(tokenAddress, r, a), ...);
      }
      rcpt = await callWithRetry(() => tx.wait(), 'tx.wait');
      ... the checkpoint update ...
      if (SLEEP_BETWEEN_TX_MS > 0) {
        await sleep(SLEEP_BETWEEN_TX_MS);
      }
    } catch (e) {
      console.error(`[Send] Chunk ${i + 1} failed:`, e);
      throw e;
    }
  }
  \<close>
\<close>

definition interChunkSleep :: "config \<Rightarrow> world \<Rightarrow> world" where
  "interChunkSleep cfg w =
     (if SLEEP_BETWEEN_TX_MS cfg > 0
      then w\<lparr>rpc := (rpc w)\<lparr>sleeps := sleeps (rpc w) @ [SLEEP_BETWEEN_TX_MS cfg]\<rparr>\<rparr>
      else w)"

fun sendChunks ::
  "config \<Rightarrow> remote \<Rightarrow> valid_entry list list \<Rightarrow> string list \<times> checkpoints \<times> world
     \<Rightarrow> (main_error + unit) \<times> string list \<times> checkpoints \<times> world" where
  "sendChunks cfg R [] st = (Inr (), st)"
| "sendChunks cfg R (entriesChunk # rest) (sentKeys, checkpoints, w) =
     (let r = map address entriesChunk;
          a = map amt entriesChunk;
          sm = sum_list a
      in case (if isNative cfg
               then callWithRetry cfg R (BatchTransferNative r a sm)
                      (\<lambda>k. batchTransferNative R k r a sm) (rpc w)
               else callWithRetry cfg R (BatchTransferERC20 r a)
                      (\<lambda>k. batchTransferERC20 R k r a) (rpc w)) of
           (Inl e, s1) \<Rightarrow> (Inl (RemoteFailure e), sentKeys, checkpoints, w\<lparr>rpc := s1\<rparr>)
         | (Inr tx, s1) \<Rightarrow>
             (case callWithRetry cfg R (TxWait tx) (\<lambda>k. tx_wait R k tx) s1 of
                (Inl e, s2) \<Rightarrow> (Inl (RemoteFailure e), sentKeys, checkpoints, w\<lparr>rpc := s2\<rparr>)
              | (Inr rcpt, s2) \<Rightarrow>
                  (case markSent cfg R entriesChunk (sentKeys, checkpoints, w\<lparr>rpc := s2\<rparr>) of
                     (sentKeys1, checkpoints1, w1) \<Rightarrow>
                       sendChunks cfg R rest (sentKeys1, checkpoints1, interChunkSleep cfg w1))))"

text \<open>
  \<^verbatim>\<open>main\<close> from the duplicate check to the working set: the duplicate check and its
  \<^verbatim>\<open>throw new Error(`Duplicate recipient addresses found in input: ...`)\<close>, the
  checkpoints, \<^verbatim>\<open>sentKeys\<close>, the decimals, the validation loop and
  \<^verbatim>\<open>if (validEntries.length === 0) throw new Error('No valid recipients/amounts remaining')\<close>.
  The result is what \<^verbatim>\<open>main\<close> throws there (\<open>Inl\<close>) or \<open>validEntries\<close>, with the
  values of \<^verbatim>\<open>sentKeys\<close> (empty before the set exists), of \<^verbatim>\<open>checkpoints\<close> and of the
  world at that point.
\<close>

definition main_validate ::
  "lib \<Rightarrow> config \<Rightarrow> remote \<Rightarrow> entry list \<Rightarrow> world
     \<Rightarrow> (main_error + valid_entry list) \<times> string list \<times> checkpoints \<times> world" where
  "main_validate L cfg R entries w =
     (let duplicateAddresses = duplicateCheck L [] [] entries
      in if length duplicateAddresses > 0
         then (Inl (DuplicateAddresses duplicateAddresses), [], [], w)
         else
      (case loadCheckpoints cfg w of
         (checkpoints, w1) \<Rightarrow>
      (let sentKeys = new_Set (sessionKeys (sessionId cfg) checkpoints)
       in
      (case fetchDecimals cfg R w1 of
         (decimals, w2) \<Rightarrow>
      (case validateEntries L cfg decimals sentKeys entries ([], 0, 0) of
         Inl err \<Rightarrow> (Inl err, sentKeys, checkpoints, w2)
       | Inr (validEntries, skippedInvalid, skippedZero) \<Rightarrow>
      (if length validEntries = 0
       then (Inl NoValidRecipients, sentKeys, checkpoints, w2)
       else (Inr validEntries, sentKeys, checkpoints, w2)))))))"

text \<open>
  \<^verbatim>\<open>main\<close> from there to the gas budget: the total (\<open>totl\<close> is \<^verbatim>\<open>total\<close>, in
  \<open>authorize\<close> too), the authorization and the gas budget. The result is what
  \<^verbatim>\<open>main\<close> throws so far (\<open>Inl\<close>) or \<open>(validEntries, gasBudget)\<close>.
\<close>

definition main_prepare ::
  "lib \<Rightarrow> config \<Rightarrow> remote \<Rightarrow> entry list \<Rightarrow> world
     \<Rightarrow> (main_error + valid_entry list \<times> int) \<times> string list \<times> checkpoints \<times> world" where
  "main_prepare L cfg R entries w =
     (case main_validate L cfg R entries w of
        (Inl err, st) \<Rightarrow> (Inl err, st)
      | (Inr validEntries, sentKeys, checkpoints, w2) \<Rightarrow>
      (let amounts = map amt validEntries;
           totl = sum_list amounts
       in
      (case authorize cfg R totl (rpc w2) of
         (Inl err, s3) \<Rightarrow> (Inl err, sentKeys, checkpoints, w2\<lparr>rpc := s3\<rparr>)
       | (Inr un, s3) \<Rightarrow>
      (case fetchGasBudget L cfg R s3 of
         (Inl err, s4) \<Rightarrow> (Inl err, sentKeys, checkpoints, w2\<lparr>rpc := s4\<rparr>)
       | (Inr gasBudget, s4) \<Rightarrow>
           (Inr (validEntries, gasBudget), sentKeys, checkpoints, w2\<lparr>rpc := s4\<rparr>)))))"

text \<open>
  \<^verbatim>\<open>main\<close>: the two parts above, the search for the chunk size, the chunks and the loop that
  sends them. The result is what \<^verbatim>\<open>main\<close> throws (\<open>Inl\<close>) or its normal return, with
  the final values of \<^verbatim>\<open>sentKeys\<close>, of \<^verbatim>\<open>checkpoints\<close> and of the world; \<open>None\<close> is
  a run that never ends.
\<close>

definition main ::
  "lib \<Rightarrow> config \<Rightarrow> remote \<Rightarrow> entry list \<Rightarrow> world
     \<Rightarrow> ((main_error + unit) \<times> string list \<times> checkpoints \<times> world) option" where
  "main L cfg R entries w =
     (case main_prepare L cfg R entries w of
        (Inl err, st) \<Rightarrow> Some (Inl err, st)
      | (Inr (validEntries, gasBudget), sentKeys, checkpoints, w4) \<Rightarrow>
          (let recipients = map address validEntries;
               amounts = map amt validEntries
           in case searchChunkSize (estimateForCount cfg R recipients amounts)
                     gasBudget (min (length recipients) 512) (rpc w4) of
                None \<Rightarrow> None
              | Some (chunkSize, s5) \<Rightarrow>
                  (case chunk validEntries chunkSize of
                     None \<Rightarrow> None
                   | Some entryChunks \<Rightarrow>
                       Some (sendChunks cfg R entryChunks
                               (sentKeys, checkpoints, w4\<lparr>rpc := s5\<rparr>)))))"

section \<open>The UI event handler: \<^verbatim>\<open>onSend\<close> of App.tsx\<close>

text \<open>
  \<^verbatim>\<open>
  const normalized = useMemo(() => {
    const addrs = new Set<string>()
    const dups = new Set<string>()
    const out: ParsedEntry[] = []
    for (const r of rows) {
      try {
        const addr = ethers.getAddress(r.address)
        if (addrs.has(addr)) { dups.add(addr); continue }
        addrs.add(addr)
        if (decimals === null) continue
        const wei = ethers.parseUnits(r.amount, decimals)
        if (wei <= 0n) continue
        out.push({ address: addr, amountStr: r.amount, amountWei: wei })
      } catch {}
    }
    return { entries: out, duplicates: Array.from(dups) }
  }, [rows, decimals])
  \<close>
  The accumulator is \<open>(addrs, dups, out)\<close>.
\<close>

fun normalized_loop ::
  "lib \<Rightarrow> int option \<Rightarrow> csv_row list \<Rightarrow> string list \<times> string list \<times> parsed_entry list
     \<Rightarrow> string list \<times> string list \<times> parsed_entry list" where
  "normalized_loop L dec [] acc = acc"
| "normalized_loop L dec (r # rs) (addrs, dups, out) =
     (case getAddress L (rowAddress r) of
        None \<Rightarrow> normalized_loop L dec rs (addrs, dups, out)
      | Some addr \<Rightarrow>
          if addr \<in> set addrs
          then normalized_loop L dec rs (addrs, set_add addr dups, out)
          else (let addrs1 = set_add addr addrs
                in case dec of
                     None \<Rightarrow> normalized_loop L dec rs (addrs1, dups, out)
                   | Some d \<Rightarrow>
                       (case parseUnits L (amount r) d of
                          None \<Rightarrow> normalized_loop L dec rs (addrs1, dups, out)
                        | Some wei \<Rightarrow>
                            if wei \<le> 0 then normalized_loop L dec rs (addrs1, dups, out)
                            else normalized_loop L dec rs
                                   (addrs1, dups,
                                    out @ [\<lparr>address = addr, amountStr = amount r,
                                             amountWei = wei\<rparr>]))))"

record normalized_t =
  entries :: "parsed_entry list"
  duplicates :: "string list"

definition normalized :: "lib \<Rightarrow> int option \<Rightarrow> csv_row list \<Rightarrow> normalized_t" where
  "normalized L dec rows =
     (case normalized_loop L dec rows ([], [], []) of
        (addrs, dups, out) \<Rightarrow> \<lparr>entries = out, duplicates = dups\<rparr>)"

text \<open>
  The React state that \<^verbatim>\<open>onSend\<close> reads: whether \<^verbatim>\<open>signer\<close> and \<^verbatim>\<open>provider\<close> are set
  (\<^verbatim>\<open>onConnect\<close> sets both), the two address fields, \<^verbatim>\<open>decimals\<close> and \<^verbatim>\<open>rows\<close>.
\<close>

record ui =
  ui_connected :: bool
  ui_tokenAddress :: string
  ui_batchAddress :: string
  ui_decimals :: "int option"
  ui_rows :: "csv_row list"

text \<open>The last status that \<^verbatim>\<open>onSend\<close> sets.\<close>

datatype ui_status =
    ConnectWalletFirst
  | EnterAddresses
  | FetchDecimalsFirst
  | NoValidEntries
  | SendFailed rpc_error
  | Done nat nat

text \<open>
  \<^verbatim>\<open>
  async function estCount(count: number): Promise<bigint | null> {
    const r = recips.slice(0, count)
    const a = amts.slice(0, count)
    try {
      const est = await batch.batchTransferERC20.estimateGas(tokenAddress, r, a)
      return est
    } catch {
      return null
    }
  }
  \<close>
\<close>

definition estCount ::
  "remote \<Rightarrow> string list \<Rightarrow> int list \<Rightarrow> nat \<Rightarrow> rpc_state \<Rightarrow> int option \<times> rpc_state" where
  "estCount R recips amts count s =
     (let r = slice recips 0 count;
          a = slice amts 0 count
      in case invoke (EstimateGasERC20 r a) (\<lambda>k. estimateGas_erc20 R k r a) s of
           (Inr est, s1) \<Rightarrow> (Some est, s1)
         | (Inl e, s1) \<Rightarrow> (None, s1))"

text \<open>
  \<^verbatim>\<open>
  async function estimateChunkSize(recips, amts, maxTry = Math.min(recips.length, 512)) {
    if (!signer || !provider || !batchAddress || !tokenAddress) return 1
    const latest = await provider.getBlock('latest')
    const blockGasLimit = latest?.gasLimit ?? 30_000_000n
    const gasBudget = BigInt(Math.floor(Number(blockGasLimit) * 0.8))
    let low = 1
    let high = maxTry
    let safe = 1
    ... the two loops ...
    return Math.max(1, safe)
  }
  \<close>
  \<open>Inl e\<close>: \<^verbatim>\<open>getBlock\<close> throws \<open>e\<close>, which \<^verbatim>\<open>estimateChunkSize\<close> does not catch.
\<close>

definition estimateChunkSize ::
  "lib \<Rightarrow> remote \<Rightarrow> ui \<Rightarrow> string list \<Rightarrow> int list \<Rightarrow> nat \<Rightarrow> rpc_state
     \<Rightarrow> ((rpc_error + nat) \<times> rpc_state) option" where
  "estimateChunkSize L R u recips amts maxTry s =
     (if \<not> ui_connected u \<or> ui_batchAddress u = [] \<or> ui_tokenAddress u = []
      then Some (Inr 1, s)
      else (case invoke GetBlock (provider_getBlock R) s of
              (Inl e, s1) \<Rightarrow> Some (Inl e, s1)
            | (Inr latest, s1) \<Rightarrow>
                (let blockGasLimit = (case latest of None \<Rightarrow> 30000000 | Some g \<Rightarrow> g);
                     gasBudget = gasBudget80 L blockGasLimit
                 in case searchChunkSize (estCount R recips amts) gasBudget maxTry s1 of
                      None \<Rightarrow> None
                    | Some (c, s2) \<Rightarrow> Some (Inr c, s2))))"

text \<open>
  \<^verbatim>\<open>
  for (let i = 0; i < rChunks.length; i++) {
    const r = rChunks[i]
    const a = aChunks[i]
    const sum = a.reduce((x, y) => x + y, 0n)
    const tx = await batch.batchTransferERC20(tokenAddress, r, a)
    const rcpt = await tx.wait()
    await new Promise(res => setTimeout(res, 750))
  }
  \<close>
  over the pairs \<open>(rChunks[i], aChunks[i])\<close>.
\<close>

fun ui_sendChunks ::
  "remote \<Rightarrow> (string list \<times> int list) list \<Rightarrow> rpc_state \<Rightarrow> (rpc_error + unit) \<times> rpc_state" where
  "ui_sendChunks R [] s = (Inr (), s)"
| "ui_sendChunks R ((r, a) # rest) s =
     (case invoke (BatchTransferERC20 r a) (\<lambda>k. batchTransferERC20 R k r a) s of
        (Inl e, s1) \<Rightarrow> (Inl e, s1)
      | (Inr tx, s1) \<Rightarrow>
          (case invoke (TxWait tx) (\<lambda>k. tx_wait R k tx) s1 of
             (Inl e, s2) \<Rightarrow> (Inl e, s2)
           | (Inr rcpt, s2) \<Rightarrow> ui_sendChunks R rest (s2\<lparr>sleeps := sleeps s2 @ [750]\<rparr>)))"

text \<open>
  \<^verbatim>\<open>
  const allowance = await token.allowance(await signer.getAddress(), batchAddress)
  if (allowance < totalWei) {
    const tx = await token.approve(batchAddress, totalWei)
    await tx.wait()
  }
  \<close>
\<close>

definition ui_authorize ::
  "remote \<Rightarrow> int \<Rightarrow> rpc_state \<Rightarrow> (rpc_error + unit) \<times> rpc_state" where
  "ui_authorize R totalWei s =
     (case invoke TokenAllowance (token_allowance R) s of
        (Inl e, s1) \<Rightarrow> (Inl e, s1)
      | (Inr allowance, s1) \<Rightarrow>
          if allowance < totalWei
          then (case invoke (TokenApprove totalWei) (\<lambda>k. token_approve R k totalWei) s1 of
                  (Inl e, s2) \<Rightarrow> (Inl e, s2)
                | (Inr tx, s2) \<Rightarrow>
                    (case invoke (TxWait tx) (\<lambda>k. tx_wait R k tx) s2 of
                       (Inl e, s3) \<Rightarrow> (Inl e, s3)
                     | (Inr rcpt, s3) \<Rightarrow> (Inr (), s3)))
          else (Inr (), s1))"

text \<open>
  \<^verbatim>\<open>onSend\<close>: the guards, the authorization, the chunk size, the chunks and the loop;
  an exception of the \<^verbatim>\<open>try\<close> block ends in the status \<^verbatim>\<open>Send failed\<close>.
\<close>

definition onSend ::
  "lib \<Rightarrow> remote \<Rightarrow> ui \<Rightarrow> rpc_state \<Rightarrow> (ui_status \<times> rpc_state) option" where
  "onSend L R u s =
     (if \<not> ui_connected u then Some (ConnectWalletFirst, s)
      else if ui_tokenAddress u = [] \<or> ui_batchAddress u = [] then Some (EnterAddresses, s)
      else if ui_decimals u = None then Some (FetchDecimalsFirst, s)
      else
       (let norm = normalized L (ui_decimals u) (ui_rows u);
            recipients = map address (entries norm);
            amounts = map amountWei (entries norm);
            totalWei = sum_list amounts
        in if length recipients = 0 then Some (NoValidEntries, s)
           else
            (case ui_authorize R totalWei s of
               (Inl e, s1) \<Rightarrow> Some (SendFailed e, s1)
             | (Inr un, s1) \<Rightarrow>
                (case estimateChunkSize L R u recipients amounts
                        (min (length recipients) 512) s1 of
                   None \<Rightarrow> None
                 | Some (Inl e, s2) \<Rightarrow> Some (SendFailed e, s2)
                 | Some (Inr cSize, s2) \<Rightarrow>
                    (case (chunk recipients cSize, chunk amounts cSize) of
                       (Some rChunks, Some aChunks) \<Rightarrow>
                         (case ui_sendChunks R (zip rChunks aChunks) s2 of
                            (Inl e, s3) \<Rightarrow> Some (SendFailed e, s3)
                          | (Inr un, s3) \<Rightarrow>
                              Some (Done (length recipients) (length rChunks), s3))
                     | _ \<Rightarrow> None)))))"

section \<open>A concrete environment\<close>

text \<open>
  A small environment on which the definitions can be run: addresses are canonical when
  they have three characters (the canonical form is in upper case), amounts are parsed
  by a table, every remote operation answers, and every write succeeds.
\<close>

definition toUpperCase :: "string \<Rightarrow> string" where
  "toUpperCase s =
     map (\<lambda>c. let n = (of_char c :: nat) in if 97 \<le> n \<and> n \<le> 122 then char_of (n - 32) else c) s"

definition demo_lib :: lib where
  "demo_lib =
     \<lparr>getAddress = (\<lambda>a. if length a = 3 then Some (toUpperCase a) else None),
      isAddress = (\<lambda>a. length a = 3),
      parseUnits = (\<lambda>a d. map_of [(''100'', 100), (''50.5'', 505), (''25'', 25), (''0'', 0)] a),
      parseEther = (\<lambda>a. map_of [(''100'', 100), (''50.5'', 505), (''25'', 25), (''0'', 0)] a),
      gasBudgetOf = (\<lambda>g. Some (g * 4 div 5)),
      gasBudget80 = (\<lambda>g. g * 4 div 5)\<rparr>"

definition demo_remote :: remote where
  "demo_remote =
     \<lparr>token_decimals = (\<lambda>k. Inr 1),
      token_allowance = (\<lambda>k. Inr 0),
      token_approve = (\<lambda>k a. Inr ''approve''),
      tx_wait = (\<lambda>k tx. Inr (Some 21000)),
      provider_getBalance = (\<lambda>k. Inr 1000000),
      provider_getBlock = (\<lambda>k. Inr (Some 1000)),
      estimateGas_native = (\<lambda>k r a v. Inr (300 * int (length r))),
      estimateGas_erc20 = (\<lambda>k r a. Inr (300 * int (length r))),
      batchTransferNative = (\<lambda>k r a v. Inr ''send''),
      batchTransferERC20 = (\<lambda>k r a. Inr ''send''),
      Math_random = (\<lambda>k. 0),
      writeFileSync = (\<lambda>k. None)\<rparr>"

definition demo_config :: config where
  "demo_config =
     \<lparr>RETRY_MAX_ATTEMPTS = 5, RETRY_BASE_MS = 500, RETRY_MAX_MS = 5000,
      SLEEP_BETWEEN_TX_MS = 750, DISABLE_CHECKPOINTS = False, isNative = False,
      decimalsOverride = None, sessionId = ''session''\<rparr>"

definition rpc0 :: rpc_state where
  "rpc0 = \<lparr>calls = [], sleeps = []\<rparr>"

definition world0 :: "ckfile \<Rightarrow> world" where
  "world0 f = \<lparr>rpc = rpc0, fs = \<lparr>ckfile = f, fslog = []\<rparr>, console = []\<rparr>"

definition demo_entries :: "entry list" where
  "demo_entries =
     [\<lparr>address = ''AAA'', amountStr = ''100''\<rparr>,
      \<lparr>address = ''BBB'', amountStr = ''50.5''\<rparr>,
      \<lparr>address = ''CCC'', amountStr = ''25''\<rparr>]"

text \<open>A remote error with the rate-limit status, and an operation that throws it on its
  first four invocations.\<close>

definition rateLimited :: rpc_error where
  "rateLimited = \<lparr>status = Some 429, message = ''Too Many Requests''\<rparr>"

definition flaky :: "nat \<Rightarrow> rpc_error + int" where
  "flaky k = (if k < 4 then Inl rateLimited else Inr 42)"

text \<open>The state of the UI with two rows for one account.\<close>

definition demo_ui :: ui where
  "demo_ui = \<lparr>ui_connected = True, ui_tokenAddress = ''TTT'', ui_batchAddress = ''SSS'',
     ui_decimals = Some 1,
     ui_rows = [\<lparr>rowAddress = ''aaa'', amount = ''100''\<rparr>,
                \<lparr>rowAddress = ''AAA'', amount = ''25''\<rparr>]\<rparr>"

text \<open>The validated entries of \<open>demo_entries\<close>.\<close>

definition demo_valid :: "valid_entry list" where
  "demo_valid =
     [\<lparr>address = ''AAA'', amountStr = ''100'', amt = 100\<rparr>,
      \<lparr>address = ''BBB'', amountStr = ''50.5'', amt = 505\<rparr>,
      \<lparr>address = ''CCC'', amountStr = ''25'', amt = 25\<rparr>]"

text \<open>A remote endpoint with no estimate for two recipients or more.\<close>

definition demo_remote_unavailable :: remote where
  "demo_remote_unavailable =
     demo_remote\<lparr>estimateGas_erc20 :=
       (\<lambda>k r a. if 2 \<le> length r then Inl rateLimited else Inr 300)\<rparr>"

text \<open>The world of \<open>demo_entries\<close> when the gas budget has been fetched.\<close>

definition demo_prepared :: world where
  "demo_prepared =
     \<lparr>rpc = \<lparr>calls = [(TokenDecimals, True), (TokenAllowance, True),
                       (TokenApprove 630, True), (TxWait ''approve'', True),
                       (GetBlock, True)],
              sleeps = []\<rparr>,
       fs = \<lparr>ckfile = Absent, fslog = [ExistsSync]\<rparr>, console = []\<rparr>"

section \<open>Observations on a run\<close>

text \<open>The chunk submissions and the authorization requests among the invocations.\<close>

fun isBatch :: "request \<Rightarrow> bool" where
  "isBatch (BatchTransferNative r a v) = True"
| "isBatch (BatchTransferERC20 r a) = True"
| "isBatch req = False"

fun isApprove :: "request \<Rightarrow> bool" where
  "isApprove (TokenApprove a) = True"
| "isApprove req = False"

definition submissions :: "world \<Rightarrow> request list" where
  "submissions w = filter isBatch (map fst (calls (rpc w)))"




text \<open>The amount of an entry as the validation loop parses it.\<close>

definition parseAmount :: "lib \<Rightarrow> config \<Rightarrow> int \<Rightarrow> string \<Rightarrow> int option" where
  "parseAmount L cfg decimals a =
     (if isNative cfg then parseEther L a else parseUnits L a decimals)"

text \<open>A checkpoint file that holds the keys of all of \<open>demo_entries\<close>.\<close>

definition demo_checkpoint :: checkpoints where
  "demo_checkpoint = [(''session'', [''AAA|100'', ''BBB|50.5'', ''CCC|25''])]"

text \<open>
  What a run shows apart from the content of the checkpoint file and the warnings: its
  outcome, the final \<^verbatim>\<open>sentKeys\<close> and \<^verbatim>\<open>checkpoints\<close>, the remote invocations with
  the waits, and the file system operations issued.
\<close>

definition visible ::
  "(main_error + unit) \<times> string list \<times> checkpoints \<times> world
     \<Rightarrow> (main_error + unit) \<times> string list \<times> checkpoints \<times> rpc_state \<times> fs_event list" where
  "visible r = (case r of (res, sentKeys, checkpoints, w) \<Rightarrow>
                  (res, sentKeys, checkpoints, rpc w, fslog (fs w)))"

text \<open>The keys of a chunk: \<^verbatim>\<open>entriesChunk.map(e => makeKey(e.address, e.amountStr))\<close>.\<close>

definition chunkKeys :: "valid_entry list \<Rightarrow> string list" where
  "chunkKeys entriesChunk = map (\<lambda>e. makeKey (address e) (amountStr e)) entriesChunk"

text \<open>A file system on which every write of the checkpoint file fails.\<close>

definition demo_remote_readonly :: remote where
  "demo_remote_readonly = demo_remote\<lparr>writeFileSync := (\<lambda>k. Some Unreadable)\<rparr>"

text \<open>
  The contents handed to \<^verbatim>\<open>fs.writeFileSync\<close>, in order, and the sets that grow from
  \<open>K\<close> by one more set at a time.
\<close>

fun writes :: "fs_event list \<Rightarrow> checkpoints list" where
  "writes [] = []"
| "writes (WriteFileSync c # evs) = c # writes evs"
| "writes (ev # evs) = writes evs"



text \<open>
  \<open>extends P s s'\<close>: the state \<open>s'\<close> comes after \<open>s\<close>, and every remote invocation
  issued in between is of a kind \<open>P\<close>.
\<close>

definition extends :: "(request \<Rightarrow> bool) \<Rightarrow> rpc_state \<Rightarrow> rpc_state \<Rightarrow> bool" where
  "extends P s s' =
     (take (length (calls s)) (calls s') = calls s
      \<and> list_all (\<lambda>c. P (fst c)) (drop (length (calls s)) (calls s')))"

text \<open>The estimates and the confirmation waits among the invocations.\<close>

fun isEstimate :: "request \<Rightarrow> bool" where
  "isEstimate (EstimateGasNative r a v) = True"
| "isEstimate (EstimateGasERC20 r a) = True"
| "isEstimate req = False"

fun isWait :: "request \<Rightarrow> bool" where
  "isWait (TxWait tx) = True"
| "isWait req = False"

text \<open>
  An entry that the validation loop accepts when no checkpoint filter applies, and the
  validated entry it becomes.
\<close>

definition otherwiseValid :: "lib \<Rightarrow> config \<Rightarrow> int \<Rightarrow> entry \<Rightarrow> bool" where
  "otherwiseValid L cfg decimals e =
     (isAddress L (address e)
      \<and> (case parseAmount L cfg decimals (amountStr e) of None \<Rightarrow> False | Some a \<Rightarrow> 0 < a))"

definition validated :: "lib \<Rightarrow> config \<Rightarrow> int \<Rightarrow> entry \<Rightarrow> valid_entry" where
  "validated L cfg decimals e =
     \<lparr>address = address e, amountStr = amountStr e,
      amt = (case parseAmount L cfg decimals (amountStr e) of None \<Rightarrow> 0 | Some a \<Rightarrow> a)\<rparr>"

text \<open>
  The transfers submitted in a run: the recipients and amounts of the chunk submissions
  that returned, in order.
\<close>

fun transferOf :: "request \<times> bool \<Rightarrow> (string \<times> int) list" where
  "transferOf (BatchTransferNative r a v, True) = zip r a"
| "transferOf (BatchTransferERC20 r a, True) = zip r a"
| "transferOf c = []"

definition transfers :: "world \<Rightarrow> (string \<times> int) list" where
  "transfers w = concat (map transferOf (calls (rpc w)))"

text \<open>The requests of the authorization step.\<close>

fun isAuthorization :: "request \<Rightarrow> bool" where
  "isAuthorization TokenAllowance = True"
| "isAuthorization GetBalance = True"
| "isAuthorization (TokenApprove a) = True"
| "isAuthorization (TxWait tx) = True"
| "isAuthorization req = False"

text \<open>The configuration with checkpoints disabled, and the world after its run on
  \<open>demo_entries\<close> beside a checkpoint file that holds all their keys.\<close>

definition demo_config_disabled :: config where
  "demo_config_disabled = demo_config\<lparr>DISABLE_CHECKPOINTS := True\<rparr>"

definition demo_sent_disabled :: world where
  "demo_sent_disabled =
     \<lparr>rpc = \<lparr>calls = [(TokenDecimals, True), (TokenAllowance, True),
                       (TokenApprove 630, True), (TxWait ''approve'', True),
                       (GetBlock, True), (EstimateGasERC20 [''AAA''] [100], True),
                       (EstimateGasERC20 [''AAA'', ''BBB''] [100, 505], True),
                       (BatchTransferERC20 [''AAA'', ''BBB''] [100, 505], True),
                       (TxWait ''send'', True),
                       (BatchTransferERC20 [''CCC''] [25], True),
                       (TxWait ''send'', True)],
              sleeps = [750, 750]\<rparr>,
       fs = \<lparr>ckfile = Doc demo_checkpoint, fslog = []\<rparr>,
       console = []\<rparr>"

text \<open>
  The worlds of the run of \<open>main\<close> on \<open>demo_entries\<close> with no checkpoint file: after
  the validation, and at the end; and the state at the end of \<open>onSend\<close> on \<open>demo_ui\<close>.
\<close>

definition demo_validated :: world where
  "demo_validated =
     \<lparr>rpc = \<lparr>calls = [(TokenDecimals, True)], sleeps = []\<rparr>,
       fs = \<lparr>ckfile = Absent, fslog = [ExistsSync]\<rparr>, console = []\<rparr>"

definition demo_done :: world where
  "demo_done =
     \<lparr>rpc = \<lparr>calls = [(TokenDecimals, True), (TokenAllowance, True),
                       (TokenApprove 630, True), (TxWait ''approve'', True),
                       (GetBlock, True), (EstimateGasERC20 [''AAA''] [100], True),
                       (EstimateGasERC20 [''AAA'', ''BBB''] [100, 505], True),
                       (BatchTransferERC20 [''AAA'', ''BBB''] [100, 505], True),
                       (TxWait ''send'', True),
                       (BatchTransferERC20 [''CCC''] [25], True),
                       (TxWait ''send'', True)],
              sleeps = [750, 750]\<rparr>,
       fs = \<lparr>ckfile = Doc demo_checkpoint,
             fslog = [ExistsSync,
                      WriteFileSync [(''session'', [''AAA|100'', ''BBB|50.5''])],
                      WriteFileSync demo_checkpoint]\<rparr>,
       console = []\<rparr>"

definition demo_ui_done :: rpc_state where
  "demo_ui_done =
     \<lparr>calls = [(TokenAllowance, True), (TokenApprove 100, True),
                (TxWait ''approve'', True), (GetBlock, True),
                (EstimateGasERC20 [''AAA''] [100], True),
                (BatchTransferERC20 [''AAA''] [100], True),
                (TxWait ''send'', True)],
       sleeps = [750]\<rparr>"

section \<open>Running the definitions\<close>

text \<open>The equations that evaluate a run in the concrete environment.\<close>

lemma char_of_65: "char_of (65::nat) = CHR ''A''"
  by code_simp

lemmas run_defs = callWithRetry_def callWithRetry_loop.simps invoke_def markSent_def
  interChunkSleep_def add_all_def new_Set_def set_add_def makeKey_def sessionKeys_def
  main_def main_prepare_def main_validate_def loadCheckpoints_def fetchDecimals_def authorize_def
  fetchGasBudget_def estimateForCount_def searchChunkSize_def doubling.simps
  binary_search.simps chunk_def chunk_loop.simps slice_def notSafe_def isSafe_def
  submissions_def isRateLimitError_def toLowerCase_def toUpperCase_def
  demo_config_def demo_remote_def demo_lib_def world0_def rpc0_def rateLimited_def
  demo_entries_def demo_valid_def char_of_65 Let_def

section \<open>Properties of the Paced Retry Executor\<close>

lemma callWithRetry_loop_return:
  assumes "fn (length (calls s)) = Inr v"
  shows "callWithRetry_loop cfg R req fn attempt delay s
           = (Inr v, s\<lparr>calls := calls s @ [(req, True)]\<rparr>)"
  using assms by (subst callWithRetry_loop.simps) (simp add: invoke_def Let_def)

lemma callWithRetry_loop_throw:
  assumes "fn (length (calls s)) = Inl e" and "attempt + 1 \<ge> RETRY_MAX_ATTEMPTS cfg"
  shows "callWithRetry_loop cfg R req fn attempt delay s
           = (Inl e, s\<lparr>calls := calls s @ [(req, False)]\<rparr>)"
  using assms by (subst callWithRetry_loop.simps) (simp add: invoke_def Let_def)

lemma callWithRetry_loop_retry:
  assumes "fn (length (calls s)) = Inl e" and "attempt + 1 < RETRY_MAX_ATTEMPTS cfg"
  shows "callWithRetry_loop cfg R req fn attempt delay s
           = callWithRetry_loop cfg R req fn (attempt + 1) (min (delay * 2) (RETRY_MAX_MS cfg))
               (s\<lparr>calls := calls s @ [(req, False)],
                  sleeps := sleeps s @
                    [min (delay + int (Math_random R (length (calls s))) mod max 1 (delay div 5))
                       (RETRY_MAX_MS cfg)]\<rparr>)"
  using assms by (subst callWithRetry_loop.simps) (simp add: invoke_def Let_def)

text \<open>
  With \<open>n\<close> attempts left, an operation that throws on its next \<open>n - 1\<close> invocations is
  invoked \<open>n\<close> times, and the outcome of the loop is the outcome of the last of them.
\<close>

lemma callWithRetry_loop_last:
  assumes "attempt + int n = RETRY_MAX_ATTEMPTS cfg" and "1 \<le> n"
    and "\<forall>i < n - 1. isl (fn (length (calls s) + i))"
  shows "fst (callWithRetry_loop cfg R req fn attempt delay s) = fn (length (calls s) + (n - 1))
       \<and> calls (snd (callWithRetry_loop cfg R req fn attempt delay s))
           = calls s @ replicate (n - 1) (req, False)
               @ [(req, \<not> isl (fn (length (calls s) + (n - 1))))]"
  using assms
proof (induction n arbitrary: attempt delay s)
  case 0
  then show ?case by simp
next
  case (Suc n)
  let ?k = "length (calls s)"
  show ?case
  proof (cases "n = 0")
    case True
    show ?thesis
    proof (cases "fn ?k")
      case (Inr v)
      then show ?thesis using True by (simp add: callWithRetry_loop_return)
    next
      case (Inl e)
      moreover have "attempt + 1 \<ge> RETRY_MAX_ATTEMPTS cfg"
        using True Suc.prems(1) by simp
      ultimately show ?thesis using True by (simp add: callWithRetry_loop_throw)
    qed
  next
    case False
    from False Suc.prems obtain e where e: "fn ?k = Inl e"
      by (cases "fn ?k") (auto dest: spec [of _ 0])
    let ?s2 = "s\<lparr>calls := calls s @ [(req, False)],
                  sleeps := sleeps s @
                    [min (delay + int (Math_random R (length (calls s))) mod max 1 (delay div 5))
                       (RETRY_MAX_MS cfg)]\<rparr>"
    have lt: "attempt + 1 < RETRY_MAX_ATTEMPTS cfg"
      using False Suc.prems(1) by simp
    have unfold: "callWithRetry_loop cfg R req fn attempt delay s
        = callWithRetry_loop cfg R req fn (attempt + 1) (min (delay * 2) (RETRY_MAX_MS cfg)) ?s2"
      using e lt by (rule callWithRetry_loop_retry)
    have p1: "attempt + 1 + int n = RETRY_MAX_ATTEMPTS cfg"
      using Suc.prems(1) by simp
    have p2: "1 \<le> n" using False by simp
    have p3: "\<forall>i < n - 1. isl (fn (length (calls ?s2) + i))"
    proof (intro allI impI)
      fix i assume "i < n - 1"
      then have "Suc i < Suc n - 1" by simp
      with Suc.prems(3) have "isl (fn (?k + Suc i))" by blast
      then show "isl (fn (length (calls ?s2) + i))" by simp
    qed
    have idx: "length (calls ?s2) + (n - 1) = ?k + (Suc n - 1)"
      using False by simp
    have rep: "replicate (Suc n - 1) (req, False) = (req, False) # replicate (n - 1) (req, False)"
      using False by (cases n) simp_all
    from Suc.IH [OF p1 p2 p3, of "min (delay * 2) (RETRY_MAX_MS cfg)"]
    show ?thesis
      unfolding unfold idx rep by simp
  qed
qed

text \<open>An operation that throws whenever it is invoked makes \<open>callWithRetry\<close> throw.\<close>

lemma callWithRetry_loop_all_throw:
  assumes "\<forall>k. isl (fn k)"
  shows "isl (fst (callWithRetry_loop cfg R req fn attempt delay s))"
proof (induction "nat (RETRY_MAX_ATTEMPTS cfg - attempt)" arbitrary: attempt delay s
         rule: less_induct)
  case less
  from assms obtain e where e: "fn (length (calls s)) = Inl e"
    by (cases "fn (length (calls s))") (auto dest: spec [of _ "length (calls s)"])
  show ?case
  proof (cases "attempt + 1 \<ge> RETRY_MAX_ATTEMPTS cfg")
    case True
    with e show ?thesis by (simp add: callWithRetry_loop_throw)
  next
    case False
    then have lt: "attempt + 1 < RETRY_MAX_ATTEMPTS cfg" by simp
    then have m: "nat (RETRY_MAX_ATTEMPTS cfg - (attempt + 1)) < nat (RETRY_MAX_ATTEMPTS cfg - attempt)"
      by simp
    have "callWithRetry_loop cfg R req fn attempt delay s
        = callWithRetry_loop cfg R req fn (attempt + 1) (min (delay * 2) (RETRY_MAX_MS cfg))
            (s\<lparr>calls := calls s @ [(req, False)],
               sleeps := sleeps s @
                 [min (delay + int (Math_random R (length (calls s))) mod max 1 (delay div 5))
                    (RETRY_MAX_MS cfg)]\<rparr>)"
      using e lt by (rule callWithRetry_loop_retry)
    then show ?thesis
      using less.hyps [OF m] by simp
  qed
qed

lemma callWithRetry_all_throw:
  assumes "\<forall>k. isl (fn k)"
  shows "isl (fst (callWithRetry cfg R req fn s))"
  unfolding callWithRetry_def using assms by (rule callWithRetry_loop_all_throw)

text \<open>
  Claim C1. Let the attempt ceiling \<^verbatim>\<open>RETRY_MAX_ATTEMPTS\<close> be \<open>N \<ge> 1\<close> and let the wrapped
  operation throw on each of its first \<open>N - 1\<close> invocations. Then \<open>callWithRetry\<close> invokes
  it exactly \<open>N\<close> times and its outcome is the outcome of the \<open>N\<close>-th invocation as it
  is: the value when that invocation returns, the very error it throws otherwise.
\<close>

theorem callWithRetry_attempt_ceiling:
  assumes "RETRY_MAX_ATTEMPTS cfg = int N" and "1 \<le> N"
    and "\<forall>i < N - 1. isl (fn (length (calls s) + i))"
  shows "fst (callWithRetry cfg R req fn s) = fn (length (calls s) + (N - 1))
       \<and> calls (snd (callWithRetry cfg R req fn s))
           = calls s @ replicate (N - 1) (req, False)
               @ [(req, \<not> isl (fn (length (calls s) + (N - 1))))]"
  unfolding callWithRetry_def
  using callWithRetry_loop_last [of 0 N cfg fn s R req "RETRY_BASE_MS cfg"] assms by simp

theorem callWithRetry_attempt_ceiling_witness:
  "RETRY_MAX_ATTEMPTS demo_config = int 5 \<and> (1::nat) \<le> 5
   \<and> map flaky [0, 1, 2, 3, 4]
       = [Inl rateLimited, Inl rateLimited, Inl rateLimited, Inl rateLimited, Inr 42]
   \<and> fst (callWithRetry demo_config demo_remote GetBalance flaky rpc0) = Inr 42
   \<and> RETRY_MAX_ATTEMPTS (demo_config\<lparr>RETRY_MAX_ATTEMPTS := 4\<rparr>) = int 4
   \<and> fst (callWithRetry (demo_config\<lparr>RETRY_MAX_ATTEMPTS := 4\<rparr>) demo_remote GetBalance
             flaky rpc0) = Inl rateLimited"
proof -
  have h5: "RETRY_MAX_ATTEMPTS demo_config = int 5"
    by (simp add: demo_config_def)
  have f5: "\<forall>i < 5 - 1. isl (flaky (length (calls rpc0) + i))"
    by (simp add: flaky_def rpc0_def)
  have h4: "RETRY_MAX_ATTEMPTS (demo_config\<lparr>RETRY_MAX_ATTEMPTS := 4\<rparr>) = int 4"
    by simp
  have f4: "\<forall>i < 4 - 1. isl (flaky (length (calls rpc0) + i))"
    by (simp add: flaky_def rpc0_def)
  have r5: "fst (callWithRetry demo_config demo_remote GetBalance flaky rpc0)
              = flaky (length (calls rpc0) + (5 - 1))"
    using callWithRetry_attempt_ceiling [OF h5 _ f5, of demo_remote GetBalance] by simp
  have r4: "fst (callWithRetry (demo_config\<lparr>RETRY_MAX_ATTEMPTS := 4\<rparr>) demo_remote GetBalance
                   flaky rpc0)
              = flaky (length (calls rpc0) + (4 - 1))"
    using callWithRetry_attempt_ceiling [OF h4 _ f4, of demo_remote GetBalance] by simp
  have v: "flaky (length (calls rpc0) + (5 - 1)) = Inr 42"
          "flaky (length (calls rpc0) + (4 - 1)) = Inl rateLimited"
    by (simp_all add: flaky_def rpc0_def)
  have m: "map flaky [0, 1, 2, 3, 4]
       = [Inl rateLimited, Inl rateLimited, Inl rateLimited, Inl rateLimited, Inr 42]"
    by (simp add: flaky_def)
  show ?thesis
    using h5 h4 r5 r4 v m by simp
qed

section \<open>Properties of the Capacity Prober\<close>

lemma doubling_total:
  assumes "1 \<le> test" and "safe \<le> high"
  shows "\<exists>low' high' safe' s'.
           doubling estimate gasBudget test low high safe s = Some ((low', high', safe'), s')
           \<and> safe' \<le> high \<and> high' \<le> high"
  using assms
proof (induction "Suc high - test" arbitrary: test low safe s rule: less_induct)
  case less
  show ?case
  proof (cases "test \<le> high")
    case False
    then show ?thesis
      using less.prems by (subst doubling.simps) simp
  next
    case True
    obtain est s1 where est: "estimate test s = (est, s1)"
      by (cases "estimate test s")
    show ?thesis
    proof (cases "notSafe gasBudget est \<or> test = high")
      case True
      then show ?thesis
        using \<open>test \<le> high\<close> est less.prems by (subst doubling.simps) auto
    next
      case False
      have step: "doubling estimate gasBudget test low high safe s
                    = doubling estimate gasBudget (test * 2) test high test s1"
        using False \<open>test \<le> high\<close> est by (subst doubling.simps) simp
      have m: "Suc high - test * 2 < Suc high - test"
        using \<open>test \<le> high\<close> less.prems(1) by arith
      have "1 \<le> test * 2" using less.prems(1) by simp
      from less.hyps [OF m this \<open>test \<le> high\<close>, of test s1]
      show ?thesis unfolding step .
    qed
  qed
qed

lemma binary_search_bound:
  assumes "safe \<le> m" and "high \<le> m"
  shows "fst (binary_search estimate gasBudget low high safe s) \<le> m"
  using assms
proof (induction estimate gasBudget low high safe s rule: binary_search.induct)
  case (1 estimate gasBudget low high safe s)
  show ?case
  proof (cases "low + 1 < high")
    case False
    then show ?thesis using "1.prems" by (subst binary_search.simps) simp
  next
    case True
    obtain est s1 where est: "estimate ((low + high) div 2) s = (est, s1)"
      by (cases "estimate ((low + high) div 2) s")
    have mid: "(low + high) div 2 \<le> m" "(low + high) div 2 \<le> high"
      using True "1.prems" by arith+
    show ?thesis
    proof (cases "isSafe gasBudget est")
      case True
      with "1.IH"(1) [OF \<open>low + 1 < high\<close> refl est [symmetric] True mid(1) "1.prems"(2)]
      show ?thesis
        using \<open>low + 1 < high\<close> est by (subst binary_search.simps) (simp add: Let_def)
    next
      case False
      with "1.IH"(2) [OF \<open>low + 1 < high\<close> refl est [symmetric] False "1.prems"(1) mid(1)]
      show ?thesis
        using \<open>low + 1 < high\<close> est by (subst binary_search.simps) (simp add: Let_def)
    qed
  qed
qed

lemma searchChunkSize_bounds:
  assumes "1 \<le> high0"
  shows "\<exists>c s'. searchChunkSize estimate gasBudget high0 s = Some (c, s') \<and> 1 \<le> c \<and> c \<le> high0"
proof -
  from doubling_total [of 1 1 high0 estimate gasBudget 1 s] assms
  obtain low' high' safe' s' where
    d: "doubling estimate gasBudget 1 1 high0 1 s = Some ((low', high', safe'), s')"
    and b: "safe' \<le> high0" "high' \<le> high0"
    by auto
  obtain c s2 where bs: "binary_search estimate gasBudget low' high' safe' s' = (c, s2)"
    by (cases "binary_search estimate gasBudget low' high' safe' s'")
  from binary_search_bound [OF b, of estimate gasBudget low' s'] bs have "c \<le> high0" by simp
  then show ?thesis
    using d bs assms by (simp add: searchChunkSize_def)
qed

lemma searchChunkSize_unavailable:
  assumes "\<forall>count s. 2 \<le> count \<longrightarrow> fst (estimate count s) = None"
  shows "\<exists>s'. searchChunkSize estimate gasBudget high0 s = Some (1, s')"
proof (cases "1 \<le> high0")
  case False
  then have d: "doubling estimate gasBudget 1 1 high0 1 s = Some ((1, high0, 1), s)"
    by (subst doubling.simps) simp
  have "binary_search estimate gasBudget 1 high0 1 s = (1, s)"
    using False by (subst binary_search.simps) simp
  with d show ?thesis by (simp add: searchChunkSize_def del: One_nat_def)
next
  case True
  obtain est s1 where est: "estimate 1 s = (est, s1)"
    by (cases "estimate 1 s")
  have b11: "\<And>t. binary_search estimate gasBudget 1 1 1 t = (1, t)"
    by (subst binary_search.simps) simp
  have b12: "\<And>t. binary_search estimate gasBudget 1 2 1 t = (1, t)"
    by (subst binary_search.simps) simp
  show ?thesis
  proof (cases "notSafe gasBudget est")
    case True
    then have "doubling estimate gasBudget 1 1 high0 1 s = Some ((1, 1, 1), s1)"
      using \<open>1 \<le> high0\<close> est by (subst doubling.simps) simp
    then show ?thesis by (simp add: searchChunkSize_def b11 del: One_nat_def)
  next
    case ok: False
    show ?thesis
    proof (cases "high0 = 1")
      case True
      then have "doubling estimate gasBudget 1 1 high0 1 s = Some ((1, 1, 1), s1)"
        using ok est by (subst doubling.simps) simp
      then show ?thesis by (simp add: searchChunkSize_def b11 del: One_nat_def)
    next
      case False
      obtain est2 s2 where est2: "estimate 2 s1 = (est2, s2)"
        by (cases "estimate 2 s1")
      with assms have "est2 = None"
        by (metis fst_conv order_refl)
      then have "doubling estimate gasBudget 2 1 high0 1 s1 = Some ((1, 2, 1), s2)"
        using est2 False \<open>1 \<le> high0\<close> by (subst doubling.simps) (simp add: notSafe_def)
      moreover have "doubling estimate gasBudget 1 1 high0 1 s
                       = doubling estimate gasBudget 2 1 high0 1 s1"
        using ok est False \<open>1 \<le> high0\<close> by (subst doubling.simps) simp
      ultimately show ?thesis by (simp add: searchChunkSize_def b12 del: One_nat_def)
    qed
  qed
qed

text \<open>An estimate that throws whenever it is asked for is unavailable.\<close>

lemma estimateForCount_erc20_unavailable:
  assumes "\<not> isNative cfg"
    and "\<forall>k. isl (estimateGas_erc20 R k (slice recipients 0 count) (slice amounts 0 count))"
  shows "fst (estimateForCount cfg R recipients amounts count s) = None"
proof -
  let ?r = "slice recipients 0 count" and ?a = "slice amounts 0 count"
  from callWithRetry_all_throw [of "\<lambda>k. estimateGas_erc20 R k ?r ?a" cfg R "EstimateGasERC20 ?r ?a" s]
       assms(2)
  have "isl (fst (callWithRetry cfg R (EstimateGasERC20 ?r ?a)
                    (\<lambda>k. estimateGas_erc20 R k ?r ?a) s))"
    by simp
  then show ?thesis
    using assms(1) by (auto simp: estimateForCount_def Let_def split: prod.splits sum.splits)
qed

text \<open>
  Claim C4. For a working set of \<open>n \<ge> 1\<close> entries the search returns, whatever the
  estimator answers (a cost, or \<open>None\<close> when the estimate is unavailable) and whatever
  the budget is, and the chunk size it returns is at least 1 and at most \<open>n\<close>. \<open>main\<close>
  runs the search with the estimator \<open>estimateForCount\<close>; \<open>estimateChunkSize\<close> of the UI
  runs it with \<open>estCount\<close>, and returns a chunk size in the same range unless
  \<^verbatim>\<open>getBlock\<close> throws.
\<close>

theorem capacity_prober_bounds:
  assumes "1 \<le> n" and "length recipients = n"
  shows "(\<exists>c s'. searchChunkSize estimate gasBudget (min n 512) s = Some (c, s')
                 \<and> 1 \<le> c \<and> c \<le> n)
       \<and> (\<exists>r s'. estimateChunkSize L R u recipients amounts (min n 512) t = Some (r, s')
                 \<and> (case r of Inl e \<Rightarrow> True | Inr c \<Rightarrow> 1 \<le> c \<and> c \<le> n))"
proof
  have h: "1 \<le> min n 512" using assms by simp
  from searchChunkSize_bounds [OF h, of estimate gasBudget s]
  show "\<exists>c s'. searchChunkSize estimate gasBudget (min n 512) s = Some (c, s') \<and> 1 \<le> c \<and> c \<le> n"
    by auto
  show "\<exists>r s'. estimateChunkSize L R u recipients amounts (min n 512) t = Some (r, s')
                 \<and> (case r of Inl e \<Rightarrow> True | Inr c \<Rightarrow> 1 \<le> c \<and> c \<le> n)"
  proof (cases "\<not> ui_connected u \<or> ui_batchAddress u = [] \<or> ui_tokenAddress u = []")
    case True
    then show ?thesis using assms by (auto simp: estimateChunkSize_def)
  next
    case False
    obtain r t1 where inv: "invoke GetBlock (provider_getBlock R) t = (r, t1)"
      by (cases "invoke GetBlock (provider_getBlock R) t")
    show ?thesis
    proof (cases r)
      case (Inl e)
      then show ?thesis using False inv by (auto simp: estimateChunkSize_def)
    next
      case (Inr latest)
      let ?b = "gasBudget80 L (case latest of None \<Rightarrow> 30000000 | Some g \<Rightarrow> g)"
      from searchChunkSize_bounds [OF h, of "estCount R recipients amounts" ?b t1]
      obtain c s' where "searchChunkSize (estCount R recipients amounts) ?b (min n 512) t1
                           = Some (c, s')" "1 \<le> c" "c \<le> n"
        by auto
      then show ?thesis
        using False inv Inr by (auto simp: estimateChunkSize_def Let_def)
    qed
  qed
qed

theorem capacity_prober_bounds_witness:
  "(1::nat) \<le> 3 \<and> length [''AAA'', ''BBB'', ''CCC''] = 3
   \<and> map_option fst (searchChunkSize
          (estimateForCount demo_config demo_remote [''AAA'', ''BBB'', ''CCC''] [100, 505, 25])
          800 (min 3 512) rpc0) = Some 2
   \<and> map_option fst (estimateChunkSize demo_lib demo_remote demo_ui
          [''AAA'', ''BBB'', ''CCC''] [100, 505, 25] (min 3 512) rpc0) = Some (Inr 2)
   \<and> (\<exists>c s'. searchChunkSize
          (estimateForCount demo_config demo_remote [''AAA'', ''BBB'', ''CCC''] [100, 505, 25])
          800 (min 3 512) rpc0 = Some (c, s') \<and> 1 \<le> c \<and> c \<le> 3)"
proof -
  have len: "length [''AAA'', ''BBB'', ''CCC''] = 3" by simp
  have run1: "map_option fst (searchChunkSize
          (estimateForCount demo_config demo_remote [''AAA'', ''BBB'', ''CCC''] [100, 505, 25])
          800 (min 3 512) rpc0) = Some 2"
    by code_simp
  have run2: "map_option fst (estimateChunkSize demo_lib demo_remote demo_ui
          [''AAA'', ''BBB'', ''CCC''] [100, 505, 25] (min 3 512) rpc0) = Some (Inr 2)"
    by code_simp
  from capacity_prober_bounds [OF _ len,
         of "estimateForCount demo_config demo_remote [''AAA'', ''BBB'', ''CCC''] [100, 505, 25]"
            800 rpc0]
  have "\<exists>c s'. searchChunkSize
          (estimateForCount demo_config demo_remote [''AAA'', ''BBB'', ''CCC''] [100, 505, 25])
          800 (min 3 512) rpc0 = Some (c, s') \<and> 1 \<le> c \<and> c \<le> 3"
    by simp
  then show ?thesis
    using run1 run2 len by simp
qed

section \<open>Properties of the chunk partitioning\<close>

lemma chunk_loop_total:
  assumes "1 \<le> sz"
  shows "chunk_loop array sz i chunks =
           Some (chunks @ the (chunk_loop array sz i []))
         \<and> chunk_loop array sz i [] \<noteq> None
         \<and> concat (the (chunk_loop array sz i [])) = drop i array
         \<and> (\<forall>c \<in> set (the (chunk_loop array sz i [])). length c \<le> sz \<and> c \<noteq> [])"
proof (induction "length array - i" arbitrary: i chunks rule: less_induct)
  case less
  show ?case
  proof (cases "i < length array")
    case False
    then show ?thesis
      by (simp add: chunk_loop.simps [of array sz i])
  next
    case True
    let ?c = "slice array i (i + sz)"
    have smaller: "length array - (i + sz) < length array - i"
      using True assms by arith
    note ih1 = less [OF smaller, of "[?c]"]
    note ih2 = less [OF smaller, of "chunks @ [?c]"]
    have step: "\<And>acc. chunk_loop array sz i acc
                  = chunk_loop array sz (i + sz) (acc @ [?c])"
      using True by (subst chunk_loop.simps) simp
    have c_len: "length ?c \<le> sz" "?c \<noteq> []"
      using True assms by (auto simp: slice_def)
    have cat: "?c @ drop (i + sz) array = drop i array"
      by (simp add: slice_def add.commute [of i sz] flip: drop_drop)
    have e0: "chunk_loop array sz i []
                = Some (?c # the (chunk_loop array sz (i + sz) []))"
      using step [of "[]"] ih1 by simp
    have e1: "chunk_loop array sz i chunks
                = Some (chunks @ ?c # the (chunk_loop array sz (i + sz) []))"
      using step [of chunks] ih2 by simp
    show ?thesis
      using e0 e1 ih1 c_len cat by simp
  qed
qed

text \<open>With size 1 every element is a chunk of its own.\<close>

lemma chunk_loop_singletons:
  "chunk_loop array 1 i chunks = Some (chunks @ map (\<lambda>e. [e]) (drop i array))"
proof (induction "length array - i" arbitrary: i chunks rule: less_induct)
  case less
  show ?case
  proof (cases "i < length array")
    case False
    then show ?thesis by (subst chunk_loop.simps) simp
  next
    case True
    have sl: "slice array i (i + 1) = [array ! i]"
      using True by (simp add: slice_def take_Suc_conv_app_nth hd_drop_conv_nth take_Suc)
    have dr: "drop i array = array ! i # drop (i + 1) array"
      using True by (simp add: Cons_nth_drop_Suc)
    have m: "length array - (i + 1) < length array - i" using True by arith
    show ?thesis
      using True less.hyps [OF m, of "chunks @ [[array ! i]]"]
      by (subst chunk_loop.simps, subst dr) (simp add: sl del: One_nat_def)
  qed
qed

lemma chunk_singletons: "chunk array 1 = Some (map (\<lambda>e. [e]) array)"
  by (simp add: chunk_def chunk_loop_singletons del: One_nat_def)

text \<open>
  Claim C2. For every list and every chunk size \<open>s \<ge> 1\<close>, \<open>chunk\<close> returns, and what
  it returns is a sequence of sub-lists whose concatenation is the input list
  (every element exactly once, in the original order), each of length at most \<open>s\<close>.
\<close>

theorem chunk_covers_in_order:
  assumes "1 \<le> s"
  shows "\<exists>cs. chunk array s = Some cs \<and> concat cs = array
              \<and> (\<forall>c \<in> set cs. length c \<le> s)"
proof -
  from chunk_loop_total [OF assms, of array 0 "[]"]
  show ?thesis
    unfolding chunk_def by auto
qed

theorem chunk_covers_in_order_witness:
  "(1::nat) \<le> 2
   \<and> chunk [''A'', ''B'', ''C''] 2 = Some [[''A'', ''B''], [''C'']]
   \<and> (\<exists>cs. chunk [''A'', ''B'', ''C''] 2 = Some cs \<and> concat cs = [''A'', ''B'', ''C'']
          \<and> (\<forall>c \<in> set cs. length c \<le> 2))"
proof -
  have run: "chunk [''A'', ''B'', ''C''] 2 = Some [[''A'', ''B''], [''C'']]"
    by (simp add: chunk_def chunk_loop.simps slice_def)
  show ?thesis
    using run chunk_covers_in_order [of 2 "[''A'', ''B'', ''C'']"] by simp
qed

section \<open>Properties of the run\<close>

text \<open>
  Claim C8. When the estimate is unavailable for every size of two or more, the search
  of \<open>main\<close> resolves to the chunk size 1, the chunks are the single entries, and
  \<open>main\<close> goes on to send them one by one.
\<close>

theorem unavailable_estimates_single_entry_chunks:
  assumes "main_prepare L cfg R input w
             = (Inr (validEntries, gasBudget), sentKeys, checkpoints, w4)"
    and "\<forall>count s. 2 \<le> count \<longrightarrow>
           fst (estimateForCount cfg R (map address validEntries) (map amt validEntries)
                  count s) = None"
  shows "\<exists>s5. searchChunkSize
                 (estimateForCount cfg R (map address validEntries) (map amt validEntries))
                 gasBudget (min (length validEntries) 512) (rpc w4) = Some (1, s5)
              \<and> chunk validEntries 1 = Some (map (\<lambda>e. [e]) validEntries)
              \<and> main L cfg R input w
                  = Some (sendChunks cfg R (map (\<lambda>e. [e]) validEntries)
                            (sentKeys, checkpoints, w4\<lparr>rpc := s5\<rparr>))"
proof -
  from searchChunkSize_unavailable [OF assms(2), of gasBudget "min (length validEntries) 512" "rpc w4"]
  obtain s5 where s5: "searchChunkSize
                 (estimateForCount cfg R (map address validEntries) (map amt validEntries))
                 gasBudget (min (length validEntries) 512) (rpc w4) = Some (1, s5)"
    by blast
  have "main L cfg R input w
          = Some (sendChunks cfg R (map (\<lambda>e. [e]) validEntries)
                    (sentKeys, checkpoints, w4\<lparr>rpc := s5\<rparr>))"
    using assms(1) s5 by (simp add: main_def Let_def chunk_singletons del: One_nat_def)
  with s5 show ?thesis
    by (auto simp: chunk_singletons simp del: One_nat_def)
qed

theorem unavailable_estimates_single_entry_chunks_witness:
  "main_prepare demo_lib demo_config demo_remote_unavailable demo_entries (world0 Absent)
     = (Inr (demo_valid, 800), [], [], demo_prepared)
   \<and> fst (estimateForCount demo_config demo_remote_unavailable
              (map address demo_valid) (map amt demo_valid) 2 (rpc demo_prepared)) = None
   \<and> (\<exists>s5. searchChunkSize
                (estimateForCount demo_config demo_remote_unavailable
                   (map address demo_valid) (map amt demo_valid))
                800 (min (length demo_valid) 512) (rpc demo_prepared) = Some (1, s5)
            \<and> chunk demo_valid 1 = Some (map (\<lambda>e. [e]) demo_valid)
            \<and> main demo_lib demo_config demo_remote_unavailable demo_entries (world0 Absent)
                = Some (sendChunks demo_config demo_remote_unavailable
                          (map (\<lambda>e. [e]) demo_valid) ([], [], demo_prepared\<lparr>rpc := s5\<rparr>)))
   \<and> map_option (\<lambda>r. (fst r, submissions (snd (snd (snd r)))))
        (main demo_lib demo_config demo_remote_unavailable demo_entries (world0 Absent))
       = Some (Inr (), [BatchTransferERC20 [''AAA''] [100], BatchTransferERC20 [''BBB''] [505],
                        BatchTransferERC20 [''CCC''] [25]])"
proof -
  have h1: "main_prepare demo_lib demo_config demo_remote_unavailable demo_entries (world0 Absent)
     = (Inr (demo_valid, 800), [], [], demo_prepared)"
    by (simp add: run_defs demo_remote_unavailable_def demo_prepared_def)
  have h2: "\<forall>count s. 2 \<le> count \<longrightarrow>
          fst (estimateForCount demo_config demo_remote_unavailable
                 (map address demo_valid) (map amt demo_valid) count s) = None"
  proof (intro allI impI)
    fix count :: nat and s
    assume "2 \<le> count"
    then have "2 \<le> length (slice (map address demo_valid) 0 count)"
      by (simp add: slice_def demo_valid_def)
    then have "\<forall>k. isl (estimateGas_erc20 demo_remote_unavailable k
                 (slice (map address demo_valid) 0 count) (slice (map amt demo_valid) 0 count))"
      by (simp add: demo_remote_unavailable_def demo_remote_def)
    moreover have "\<not> isNative demo_config" by (simp add: demo_config_def)
    ultimately show "fst (estimateForCount demo_config demo_remote_unavailable
                 (map address demo_valid) (map amt demo_valid) count s) = None"
      by (rule estimateForCount_erc20_unavailable [rotated])
  qed
  have run: "map_option (\<lambda>r. (fst r, submissions (snd (snd (snd r)))))
        (main demo_lib demo_config demo_remote_unavailable demo_entries (world0 Absent))
       = Some (Inr (), [BatchTransferERC20 [''AAA''] [100], BatchTransferERC20 [''BBB''] [505],
                        BatchTransferERC20 [''CCC''] [25]])"
    by (simp add: run_defs demo_remote_unavailable_def)
  note concl = unavailable_estimates_single_entry_chunks [OF h1 h2]
  have h2': "fst (estimateForCount demo_config demo_remote_unavailable
              (map address demo_valid) (map amt demo_valid) 2 (rpc demo_prepared)) = None"
    using h2 by simp
  show ?thesis
    by (intro conjI) (rule h1, rule h2', rule concl, rule run)
qed

section \<open>Properties of the duplicate check\<close>

lemma set_set_add [simp]: "set (set_add k s) = insert k (set s)"
  by (auto simp: set_add_def)

lemma distinct_set_add [simp]: "distinct (set_add k s) = distinct s"
  by (auto simp: set_add_def)







section \<open>The remote invocations of a run\<close>

text \<open>
  A call through \<open>callWithRetry\<close> adds its invocations to the record: some that throw,
  then a last one, which returns exactly when the call does.
\<close>

lemma callWithRetry_loop_calls:
  "\<exists>n. calls (snd (callWithRetry_loop cfg R req fn attempt delay s))
         = calls s @ replicate n (req, False)
             @ [(req, \<not> isl (fst (callWithRetry_loop cfg R req fn attempt delay s)))]"
proof (induction "nat (RETRY_MAX_ATTEMPTS cfg - attempt)" arbitrary: attempt delay s
         rule: less_induct)
  case less
  let ?k = "length (calls s)"
  show ?case
  proof (cases "fn ?k")
    case (Inr v)
    then show ?thesis by (simp add: callWithRetry_loop_return)
  next
    case (Inl e)
    show ?thesis
    proof (cases "attempt + 1 \<ge> RETRY_MAX_ATTEMPTS cfg")
      case True
      with Inl show ?thesis by (simp add: callWithRetry_loop_throw)
    next
      case False
      then have lt: "attempt + 1 < RETRY_MAX_ATTEMPTS cfg" by simp
      then have m: "nat (RETRY_MAX_ATTEMPTS cfg - (attempt + 1))
                      < nat (RETRY_MAX_ATTEMPTS cfg - attempt)"
        by simp
      let ?s2 = "s\<lparr>calls := calls s @ [(req, False)],
               sleeps := sleeps s @
                 [min (delay + int (Math_random R (length (calls s))) mod max 1 (delay div 5))
                    (RETRY_MAX_MS cfg)]\<rparr>"
      let ?d2 = "min (delay * 2) (RETRY_MAX_MS cfg)"
      have u: "callWithRetry_loop cfg R req fn attempt delay s
                 = callWithRetry_loop cfg R req fn (attempt + 1) ?d2 ?s2"
        using Inl lt by (rule callWithRetry_loop_retry)
      from less.hyps [OF m, of ?d2 ?s2] obtain n where
        "calls (snd (callWithRetry_loop cfg R req fn (attempt + 1) ?d2 ?s2))
           = calls ?s2 @ replicate n (req, False)
               @ [(req, \<not> isl (fst (callWithRetry_loop cfg R req fn (attempt + 1) ?d2 ?s2)))]"
        by blast
      then have "calls (snd (callWithRetry_loop cfg R req fn attempt delay s))
           = calls s @ replicate (Suc n) (req, False)
               @ [(req, \<not> isl (fst (callWithRetry_loop cfg R req fn attempt delay s)))]"
        unfolding u by simp
      then show ?thesis by blast
    qed
  qed
qed

lemma callWithRetry_calls:
  "\<exists>n. calls (snd (callWithRetry cfg R req fn s))
         = calls s @ replicate n (req, False)
             @ [(req, \<not> isl (fst (callWithRetry cfg R req fn s)))]"
  unfolding callWithRetry_def by (rule callWithRetry_loop_calls)

section \<open>Properties of the resumption filter\<close>

lemma validateEntries_all_sent:
  assumes "\<not> DISABLE_CHECKPOINTS cfg"
    and "\<forall>e \<in> set es. makeKey (address e) (amountStr e) \<in> set sentKeys"
    and "\<forall>e \<in> set es. isAddress L (address e)
            \<longrightarrow> parseAmount L cfg decimals (amountStr e) \<noteq> None"
  shows "\<exists>i z. validateEntries L cfg decimals sentKeys es (v, skI, skZ) = Inr (v, i, z)"
  using assms
proof (induction es arbitrary: skI skZ)
  case Nil
  then show ?case by simp
next
  case (Cons e es)
  then show ?case
    by (cases "isAddress L (address e)")
       (auto simp: parseAmount_def Let_def split: option.splits if_splits)
qed

lemma loadCheckpoints_Doc:
  assumes "\<not> DISABLE_CHECKPOINTS cfg" and "ckfile (fs w) = Doc d"
  shows "loadCheckpoints cfg w
           = (d, w\<lparr>fs := (fs w)\<lparr>fslog := fslog (fs w) @ [ExistsSync, ReadFileSync]\<rparr>\<rparr>)"
  using assms by (simp add: loadCheckpoints_def Let_def)

lemma fetchDecimals_rpc:
  "fetchDecimals cfg R w
     = (fst (fetchDecimals cfg R w'), snd (fetchDecimals cfg R w)) \<and>
   fs (snd (fetchDecimals cfg R w)) = fs w"
  if "rpc w = rpc w'"
  using that by (auto simp: fetchDecimals_def split: option.splits prod.splits sum.splits)

lemma fetchDecimals_calls:
  "\<exists>n b. calls (rpc (snd (fetchDecimals cfg R w)))
       = calls (rpc w) @ (if isNative cfg \<or> decimalsOverride cfg \<noteq> None then []
                          else replicate n (TokenDecimals, False) @ [(TokenDecimals, b)])"
proof (cases "isNative cfg \<or> decimalsOverride cfg \<noteq> None")
  case True
  then show ?thesis by (auto simp: fetchDecimals_def)
next
  case False
  from callWithRetry_calls [of cfg R TokenDecimals "token_decimals R" "rpc w"]
  obtain n where "calls (snd (callWithRetry cfg R TokenDecimals (token_decimals R) (rpc w)))
         = calls (rpc w) @ replicate n (TokenDecimals, False)
             @ [(TokenDecimals, \<not> isl (fst (callWithRetry cfg R TokenDecimals (token_decimals R) (rpc w))))]"
    by blast
  then show ?thesis
    using False by (auto simp: fetchDecimals_def split: prod.splits sum.splits)
qed

lemma set_add_all [simp]: "set (add_all s ks) = set s \<union> set ks"
  unfolding add_all_def by (induction ks arbitrary: s) auto

lemma distinct_add_all [simp]: "distinct (add_all s ks) = distinct s"
  unfolding add_all_def by (induction ks arbitrary: s) auto

lemma set_new_Set [simp]: "set (new_Set ks) = set ks"
  by (simp add: new_Set_def)

lemma distinct_new_Set [simp]: "distinct (new_Set ks)"
  by (simp add: new_Set_def)

text \<open>
  Claim C5, amended. With checkpoints enabled, an input without duplicate addresses whose
  amounts parse, and a checkpoint file that holds the key of every entry for the session:
  \<open>main\<close> throws \<^verbatim>\<open>No valid recipients/amounts remaining\<close>. Before it does, it issues
  no remote call when the asset is native or \<^verbatim>\<open>DECIMALS\<close> is set; otherwise its only
  remote invocations are those of the one call of \<^verbatim>\<open>token.decimals()\<close>.
\<close>

theorem all_confirmed_run_fails_before_sending:
  assumes "\<not> DISABLE_CHECKPOINTS cfg"
    and "ckfile (fs w) = Doc d"
    and "duplicateCheck L [] [] input = []"
    and "\<forall>e \<in> set input.
           makeKey (address e) (amountStr e) \<in> set (sessionKeys (sessionId cfg) d)"
    and "\<forall>e \<in> set input. isAddress L (address e)
           \<longrightarrow> parseAmount L cfg (fst (fetchDecimals cfg R w)) (amountStr e) \<noteq> None"
  shows "\<exists>w' n b.
           main L cfg R input w
             = Some (Inl NoValidRecipients, new_Set (sessionKeys (sessionId cfg) d), d, w')
           \<and> calls (rpc w')
               = calls (rpc w)
                   @ (if isNative cfg \<or> decimalsOverride cfg \<noteq> None then []
                      else replicate n (TokenDecimals, False) @ [(TokenDecimals, b)])"
proof -
  let ?w1 = "w\<lparr>fs := (fs w)\<lparr>fslog := fslog (fs w) @ [ExistsSync, ReadFileSync]\<rparr>\<rparr>"
  let ?K = "new_Set (sessionKeys (sessionId cfg) d)"
  let ?dec = "fst (fetchDecimals cfg R w)"
  have load: "loadCheckpoints cfg w = (d, ?w1)"
    using assms(1,2) by (rule loadCheckpoints_Doc)
  obtain w2 where dec: "fetchDecimals cfg R ?w1 = (?dec, w2)"
    using fetchDecimals_rpc [of ?w1 w cfg R] by (cases "fetchDecimals cfg R ?w1") auto
  from validateEntries_all_sent [of cfg input ?K L ?dec "[]" 0 0] assms(1,4,5)
  obtain i z where val: "validateEntries L cfg ?dec ?K input ([], 0, 0) = Inr ([], i, z)"
    by auto
  have m: "main L cfg R input w = Some (Inl NoValidRecipients, ?K, d, w2)"
    using assms(3) load dec val by (simp add: main_def main_prepare_def main_validate_def Let_def)
  from fetchDecimals_calls [of cfg R ?w1] dec obtain n b where
    "calls (rpc w2)
       = calls (rpc w) @ (if isNative cfg \<or> decimalsOverride cfg \<noteq> None then []
                          else replicate n (TokenDecimals, False) @ [(TokenDecimals, b)])"
    by auto
  with m show ?thesis by blast
qed

theorem all_confirmed_run_fails_before_sending_witness:
  "main demo_lib (demo_config\<lparr>isNative := True\<rparr>) demo_remote demo_entries
       (world0 (Doc demo_checkpoint))
     = Some (Inl NoValidRecipients, [''AAA|100'', ''BBB|50.5'', ''CCC|25''], demo_checkpoint,
             \<lparr>rpc = rpc0,
               fs = \<lparr>ckfile = Doc demo_checkpoint, fslog = [ExistsSync, ReadFileSync]\<rparr>,
               console = []\<rparr>)
   \<and> (\<exists>w' n b.
         main demo_lib (demo_config\<lparr>isNative := True\<rparr>) demo_remote demo_entries
             (world0 (Doc demo_checkpoint))
           = Some (Inl NoValidRecipients,
                   new_Set (sessionKeys (sessionId (demo_config\<lparr>isNative := True\<rparr>))
                      demo_checkpoint),
                   demo_checkpoint, w')
         \<and> calls (rpc w') = calls (rpc (world0 (Doc demo_checkpoint))) @ [])"
proof -
  let ?cfg = "demo_config\<lparr>isNative := True\<rparr>"
  let ?w = "world0 (Doc demo_checkpoint)"
  have a1: "\<not> DISABLE_CHECKPOINTS ?cfg" by (simp add: demo_config_def)
  have a2: "ckfile (fs ?w) = Doc demo_checkpoint" by (simp add: world0_def)
  have a3: "duplicateCheck demo_lib [] [] demo_entries = []"
    by (simp add: demo_entries_def demo_lib_def set_add_def toUpperCase_def)
  have a4: "\<forall>e \<in> set demo_entries.
           makeKey (address e) (amountStr e) \<in> set (sessionKeys (sessionId ?cfg) demo_checkpoint)"
    by (simp add: demo_entries_def demo_checkpoint_def demo_config_def makeKey_def
          sessionKeys_def)
  have a5: "\<forall>e \<in> set demo_entries. isAddress demo_lib (address e)
           \<longrightarrow> parseAmount demo_lib ?cfg (fst (fetchDecimals ?cfg demo_remote ?w)) (amountStr e)
                 \<noteq> None"
    by (simp add: demo_entries_def parseAmount_def demo_lib_def)
  have run: "main demo_lib ?cfg demo_remote demo_entries ?w
     = Some (Inl NoValidRecipients, [''AAA|100'', ''BBB|50.5'', ''CCC|25''], demo_checkpoint,
             \<lparr>rpc = rpc0,
               fs = \<lparr>ckfile = Doc demo_checkpoint, fslog = [ExistsSync, ReadFileSync]\<rparr>,
               console = []\<rparr>)"
    by (simp add: run_defs demo_checkpoint_def)
  from all_confirmed_run_fails_before_sending [OF a1 a2 a3 a4 a5]
  have "\<exists>w' n b.
         main demo_lib ?cfg demo_remote demo_entries ?w
           = Some (Inl NoValidRecipients,
                   new_Set (sessionKeys (sessionId ?cfg) demo_checkpoint), demo_checkpoint, w')
         \<and> calls (rpc w') = calls (rpc ?w) @ []"
    by simp
  with run show ?thesis by blast
qed

text \<open>
  As stated, claim C5 fails: for a token with no \<^verbatim>\<open>DECIMALS\<close> override the run asks the
  token for its decimals before it finds that nothing remains.
\<close>

theorem remote_call_before_no_remaining_counterexample:
  "main demo_lib demo_config demo_remote demo_entries (world0 (Doc demo_checkpoint))
     = Some (Inl NoValidRecipients, [''AAA|100'', ''BBB|50.5'', ''CCC|25''], demo_checkpoint,
             \<lparr>rpc = \<lparr>calls = [(TokenDecimals, True)], sleeps = []\<rparr>,
               fs = \<lparr>ckfile = Doc demo_checkpoint, fslog = [ExistsSync, ReadFileSync]\<rparr>,
               console = []\<rparr>)"
  by (simp add: run_defs demo_checkpoint_def)

section \<open>A run does not depend on the outcome of the checkpoint writes\<close>

lemma callWithRetry_loop_random:
  assumes "Math_random R' = Math_random R"
  shows "callWithRetry_loop cfg R' req fn attempt delay s
           = callWithRetry_loop cfg R req fn attempt delay s"
proof (induction "nat (RETRY_MAX_ATTEMPTS cfg - attempt)" arbitrary: attempt delay s
         rule: less_induct)
  case less
  let ?k = "length (calls s)"
  show ?case
  proof (cases "fn ?k")
    case (Inr v)
    then show ?thesis by (simp add: callWithRetry_loop_return)
  next
    case (Inl e)
    show ?thesis
    proof (cases "attempt + 1 \<ge> RETRY_MAX_ATTEMPTS cfg")
      case True
      with Inl show ?thesis by (simp add: callWithRetry_loop_throw)
    next
      case False
      then have lt: "attempt + 1 < RETRY_MAX_ATTEMPTS cfg" by simp
      then have m: "nat (RETRY_MAX_ATTEMPTS cfg - (attempt + 1))
                      < nat (RETRY_MAX_ATTEMPTS cfg - attempt)"
        by simp
      let ?s2 = "s\<lparr>calls := calls s @ [(req, False)],
               sleeps := sleeps s @
                 [min (delay + int (Math_random R (length (calls s))) mod max 1 (delay div 5))
                    (RETRY_MAX_MS cfg)]\<rparr>"
      let ?d2 = "min (delay * 2) (RETRY_MAX_MS cfg)"
      have u: "callWithRetry_loop cfg R req fn attempt delay s
                 = callWithRetry_loop cfg R req fn (attempt + 1) ?d2 ?s2"
        using Inl lt by (rule callWithRetry_loop_retry)
      have u': "callWithRetry_loop cfg R' req fn attempt delay s
                 = callWithRetry_loop cfg R' req fn (attempt + 1) ?d2 ?s2"
        using callWithRetry_loop_retry [of fn s e attempt cfg R' req delay, OF Inl lt]
        by (simp add: assms)
      show ?thesis
        unfolding u u' by (rule less.hyps [OF m])
    qed
  qed
qed

lemma callWithRetry_writeFileSync [simp]:
  "callWithRetry cfg (R\<lparr>writeFileSync := wr\<rparr>) req fn s = callWithRetry cfg R req fn s"
  unfolding callWithRetry_def by (rule callWithRetry_loop_random) simp

lemma estimateForCount_writeFileSync [simp]:
  "estimateForCount cfg (R\<lparr>writeFileSync := wr\<rparr>) recipients amounts
     = estimateForCount cfg R recipients amounts"
  by (intro ext) (simp add: estimateForCount_def Let_def cong: if_cong)

lemma fetchDecimals_writeFileSync [simp]:
  "fetchDecimals cfg (R\<lparr>writeFileSync := wr\<rparr>) w = fetchDecimals cfg R w"
  by (simp add: fetchDecimals_def cong: if_cong option.case_cong)

lemma authorize_writeFileSync [simp]:
  "authorize cfg (R\<lparr>writeFileSync := wr\<rparr>) totl s = authorize cfg R totl s"
  by (simp add: authorize_def cong: if_cong prod.case_cong sum.case_cong)

lemma fetchGasBudget_writeFileSync [simp]:
  "fetchGasBudget L cfg (R\<lparr>writeFileSync := wr\<rparr>) s = fetchGasBudget L cfg R s"
  by (simp add: fetchGasBudget_def)

lemma main_prepare_writeFileSync [simp]:
  "main_prepare L cfg (R\<lparr>writeFileSync := wr\<rparr>) input w = main_prepare L cfg R input w"
  by (simp add: main_prepare_def main_validate_def
        cong: if_cong prod.case_cong sum.case_cong option.case_cong)

lemma markSent_visible:
  assumes "rpc w = rpc v" and "fslog (fs w) = fslog (fs v)"
    and "markSent cfg (R\<lparr>writeFileSync := wr\<rparr>) c (K, cps, w) = (K1, cps1, w1)"
    and "markSent cfg R c (K, cps, v) = (K2, cps2, v2)"
  shows "K1 = K2 \<and> cps1 = cps2 \<and> rpc w1 = rpc v2 \<and> fslog (fs w1) = fslog (fs v2)"
  using assms by (auto simp: markSent_def Let_def split: if_splits option.splits)

lemma sendChunks_visible:
  assumes "rpc w = rpc v" and "fslog (fs w) = fslog (fs v)"
  shows "visible (sendChunks cfg (R\<lparr>writeFileSync := wr\<rparr>) cs (K, cps, w))
           = visible (sendChunks cfg R cs (K, cps, v))"
  using assms
proof (induction cs arbitrary: K cps w v)
  case Nil
  then show ?case by (simp add: visible_def)
next
  case (Cons c cs)
  let ?r = "map address c" and ?a = "map amt c"
  let ?send = "if isNative cfg
               then callWithRetry cfg R (BatchTransferNative ?r ?a (sum_list ?a))
                      (\<lambda>k. batchTransferNative R k ?r ?a (sum_list ?a)) (rpc v)
               else callWithRetry cfg R (BatchTransferERC20 ?r ?a)
                      (\<lambda>k. batchTransferERC20 R k ?r ?a) (rpc v)"
  obtain r1 s1 where send: "?send = (r1, s1)" by (cases ?send)
  show ?case
  proof (cases r1)
    case (Inl e)
    with send Cons.prems show ?thesis
      by (auto simp: visible_def Let_def split: if_splits)
  next
    case (Inr tx)
    obtain r2 s2 where wait: "callWithRetry cfg R (TxWait tx) (\<lambda>k. tx_wait R k tx) s1 = (r2, s2)"
      by (cases "callWithRetry cfg R (TxWait tx) (\<lambda>k. tx_wait R k tx) s1")
    show ?thesis
    proof (cases r2)
      case (Inl e)
      with send wait Inr Cons.prems show ?thesis
        by (auto simp: visible_def Let_def split: if_splits)
    next
      case rc: (Inr rcpt)
      obtain K1 cps1 w1 where m1:
        "markSent cfg (R\<lparr>writeFileSync := wr\<rparr>) c (K, cps, w\<lparr>rpc := s2\<rparr>) = (K1, cps1, w1)"
        by (cases "markSent cfg (R\<lparr>writeFileSync := wr\<rparr>) c (K, cps, w\<lparr>rpc := s2\<rparr>)")
      obtain K2 cps2 v2 where m2:
        "markSent cfg R c (K, cps, v\<lparr>rpc := s2\<rparr>) = (K2, cps2, v2)"
        by (cases "markSent cfg R c (K, cps, v\<lparr>rpc := s2\<rparr>)")
      have eq: "K1 = K2" "cps1 = cps2" "rpc w1 = rpc v2" "fslog (fs w1) = fslog (fs v2)"
        using markSent_visible [OF _ _ m1 m2] Cons.prems by simp_all
      have sl: "rpc (interChunkSleep cfg w1) = rpc (interChunkSleep cfg v2)"
               "fslog (fs (interChunkSleep cfg w1)) = fslog (fs (interChunkSleep cfg v2))"
        using eq by (simp_all add: interChunkSleep_def)
      from Cons.IH [OF sl, of K2 cps2]
      show ?thesis
        using send wait Inr rc m1 m2 eq Cons.prems by (auto simp: Let_def split: if_splits)
    qed
  qed
qed

lemma main_visible:
  "map_option visible (main L cfg (R\<lparr>writeFileSync := wr\<rparr>) input w)
     = map_option visible (main L cfg R input w)"
proof (cases "main_prepare L cfg R input w")
  case (fields res K cps w4)
  show ?thesis
  proof (cases res)
    case (Inl err)
    with fields show ?thesis by (simp add: main_def)
  next
    case (Inr p)
    obtain validEntries gasBudget where p: "p = (validEntries, gasBudget)" by (cases p)
    show ?thesis
      using fields Inr p
      by (auto simp: main_def Let_def sendChunks_visible split: option.splits)
  qed
qed

lemma markSent_failed_write:
  assumes "\<not> DISABLE_CHECKPOINTS cfg"
    and "writeFileSync R (length (fslog (fs v))) = Some left"
  shows "markSent cfg R c (K, cps, v)
           = (add_all K (chunkKeys c),
              AList.update (sessionId cfg) (add_all (new_Set K) (chunkKeys c)) cps,
              v\<lparr>fs := \<lparr>ckfile = left,
                        fslog = fslog (fs v)
                          @ [WriteFileSync (AList.update (sessionId cfg)
                                              (add_all (new_Set K) (chunkKeys c)) cps)]\<rparr>,
                 console := console v @ [WarnCheckpointWrite]\<rparr>)"
  using assms by (simp add: markSent_def chunkKeys_def Let_def)

text \<open>
  Claim C9. A failing write of the checkpoint file is not fatal. Whatever the outcomes
  of the writes are, the run has the same outcome, the same remote invocations (it
  sends the same chunks), the same final \<^verbatim>\<open>sentKeys\<close> and \<^verbatim>\<open>checkpoints\<close>, and
  issues the same file system operations as the run in which the writes behave as in
  \<open>R\<close>. A write that fails after a confirmed chunk adds the warning, and the keys of
  the chunk are added to \<^verbatim>\<open>sentKeys\<close> all the same.
\<close>

theorem checkpoint_write_failure_is_not_fatal:
  "map_option visible (main L cfg (R\<lparr>writeFileSync := wr\<rparr>) input w)
     = map_option visible (main L cfg R input w)
   \<and> (\<not> DISABLE_CHECKPOINTS cfg \<longrightarrow> writeFileSync R (length (fslog (fs v))) = Some left \<longrightarrow>
        markSent cfg R c (K, cps, v)
           = (add_all K (chunkKeys c),
              AList.update (sessionId cfg) (add_all (new_Set K) (chunkKeys c)) cps,
              v\<lparr>fs := \<lparr>ckfile = left,
                        fslog = fslog (fs v)
                          @ [WriteFileSync (AList.update (sessionId cfg)
                                              (add_all (new_Set K) (chunkKeys c)) cps)]\<rparr>,
                 console := console v @ [WarnCheckpointWrite]\<rparr>))"
  using main_visible markSent_failed_write by blast


theorem checkpoint_write_failure_is_not_fatal_witness:
  "main demo_lib demo_config demo_remote_readonly demo_entries (world0 Absent)
     = Some (Inr (), [''AAA|100'', ''BBB|50.5'', ''CCC|25''],
             [(''session'', [''AAA|100'', ''BBB|50.5'', ''CCC|25''])],
             \<lparr>rpc = \<lparr>calls =
                       [(TokenDecimals, True), (TokenAllowance, True),
                        (TokenApprove 630, True), (TxWait ''approve'', True),
                        (GetBlock, True), (EstimateGasERC20 [''AAA''] [100], True),
                        (EstimateGasERC20 [''AAA'', ''BBB''] [100, 505], True),
                        (BatchTransferERC20 [''AAA'', ''BBB''] [100, 505], True),
                        (TxWait ''send'', True),
                        (BatchTransferERC20 [''CCC''] [25], True),
                        (TxWait ''send'', True)],
                      sleeps = [750, 750]\<rparr>,
               fs = \<lparr>ckfile = Unreadable,
                     fslog = [ExistsSync,
                              WriteFileSync [(''session'', [''AAA|100'', ''BBB|50.5''])],
                              WriteFileSync
                                [(''session'', [''AAA|100'', ''BBB|50.5'', ''CCC|25''])]]\<rparr>,
               console = [WarnCheckpointWrite, WarnCheckpointWrite]\<rparr>)
   \<and> map_option visible (main demo_lib demo_config demo_remote_readonly demo_entries
                           (world0 Absent))
       = map_option visible (main demo_lib demo_config demo_remote demo_entries (world0 Absent))
   \<and> markSent demo_config demo_remote_readonly [hd demo_valid] ([], [], world0 Absent)
       = ([''AAA|100''], [(''session'', [''AAA|100''])],
          \<lparr>rpc = rpc0,
            fs = \<lparr>ckfile = Unreadable,
                  fslog = [WriteFileSync [(''session'', [''AAA|100''])]]\<rparr>,
            console = [WarnCheckpointWrite]\<rparr>)"
proof -
  have run: "main demo_lib demo_config demo_remote_readonly demo_entries (world0 Absent)
     = Some (Inr (), [''AAA|100'', ''BBB|50.5'', ''CCC|25''],
             [(''session'', [''AAA|100'', ''BBB|50.5'', ''CCC|25''])],
             \<lparr>rpc = \<lparr>calls =
                       [(TokenDecimals, True), (TokenAllowance, True),
                        (TokenApprove 630, True), (TxWait ''approve'', True),
                        (GetBlock, True), (EstimateGasERC20 [''AAA''] [100], True),
                        (EstimateGasERC20 [''AAA'', ''BBB''] [100, 505], True),
                        (BatchTransferERC20 [''AAA'', ''BBB''] [100, 505], True),
                        (TxWait ''send'', True),
                        (BatchTransferERC20 [''CCC''] [25], True),
                        (TxWait ''send'', True)],
                      sleeps = [750, 750]\<rparr>,
               fs = \<lparr>ckfile = Unreadable,
                     fslog = [ExistsSync,
                              WriteFileSync [(''session'', [''AAA|100'', ''BBB|50.5''])],
                              WriteFileSync
                                [(''session'', [''AAA|100'', ''BBB|50.5'', ''CCC|25''])]]\<rparr>,
               console = [WarnCheckpointWrite, WarnCheckpointWrite]\<rparr>)"
    by (simp add: run_defs demo_remote_readonly_def)
  note inst1 = checkpoint_write_failure_is_not_fatal
               [where L = demo_lib and cfg = demo_config and R = demo_remote
                  and wr = "\<lambda>k. Some Unreadable" and input = demo_entries
                  and w = "world0 Absent"]
  note inst2 = checkpoint_write_failure_is_not_fatal
               [where cfg = demo_config and R = demo_remote_readonly
                  and v = "world0 Absent" and left = Unreadable and c = "[hd demo_valid]"
                  and K = "[]" and cps = "[]"]
  have a1: "\<not> DISABLE_CHECKPOINTS demo_config" by (simp add: demo_config_def)
  have a2: "writeFileSync demo_remote_readonly (length (fslog (fs (world0 Absent))))
              = Some Unreadable"
    by (simp add: demo_remote_readonly_def)
  have same: "map_option visible (main demo_lib demo_config demo_remote_readonly demo_entries
                           (world0 Absent))
       = map_option visible (main demo_lib demo_config demo_remote demo_entries (world0 Absent))"
    using inst1 [THEN conjunct1] by (simp add: demo_remote_readonly_def)
  have mark: "markSent demo_config demo_remote_readonly [hd demo_valid] ([], [], world0 Absent)
       = ([''AAA|100''], [(''session'', [''AAA|100''])],
          \<lparr>rpc = rpc0,
            fs = \<lparr>ckfile = Unreadable,
                  fslog = [WriteFileSync [(''session'', [''AAA|100''])]]\<rparr>,
            console = [WarnCheckpointWrite]\<rparr>)"
    using inst2 [THEN conjunct2, rule_format, OF a1 a2]
    by (simp add: chunkKeys_def run_defs)
  show ?thesis
    by (intro conjI) (rule run, rule same, rule mark)
qed

section \<open>Properties of the checkpoint update\<close>

lemma writes_append [simp]: "writes (xs @ ys) = writes xs @ writes ys"
  by (induction xs rule: writes.induct) simp_all

lemma sessionKeys_update [simp]: "sessionKeys sid (AList.update sid ks cps) = ks"
  by (simp add: sessionKeys_def update_conv')


lemma interChunkSleep_fs [simp]: "fs (interChunkSleep cfg w) = fs w"
  by (simp add: interChunkSleep_def)






section \<open>The kinds of remote invocations a step issues\<close>

lemma extends_iff:
  "extends P s s' \<longleftrightarrow> (\<exists>xs. calls s' = calls s @ xs \<and> (\<forall>c \<in> set xs. P (fst c)))"
proof
  assume "extends P s s'"
  then have "calls s' = calls s @ drop (length (calls s)) (calls s')"
    and "\<forall>c \<in> set (drop (length (calls s)) (calls s')). P (fst c)"
    unfolding extends_def list_all_iff by (metis append_take_drop_id, blast)
  then show "\<exists>xs. calls s' = calls s @ xs \<and> (\<forall>c \<in> set xs. P (fst c))" by blast
next
  assume "\<exists>xs. calls s' = calls s @ xs \<and> (\<forall>c \<in> set xs. P (fst c))"
  then show "extends P s s'"
    by (auto simp: extends_def list_all_iff)
qed

lemma extends_refl [simp]: "extends P s s"
  by (simp add: extends_iff)

lemma extends_trans: "extends P s t \<Longrightarrow> extends P t u \<Longrightarrow> extends P s u"
  by (auto simp: extends_iff)

lemma extends_mono: "extends P s t \<Longrightarrow> (\<And>r. P r \<Longrightarrow> Q r) \<Longrightarrow> extends Q s t"
  by (auto simp: extends_iff)

lemma extends_sleeps [simp]: "extends P s (t\<lparr>sleeps := x\<rparr>) = extends P s t"
  by (simp add: extends_def)

lemma callWithRetry_extends:
  "extends (\<lambda>r. r = req) s (snd (callWithRetry cfg R req fn s))"
proof -
  from callWithRetry_calls [of cfg R req fn s] obtain n where
    "calls (snd (callWithRetry cfg R req fn s))
       = calls s @ replicate n (req, False)
           @ [(req, \<not> isl (fst (callWithRetry cfg R req fn s)))]"
    by blast
  then show ?thesis by (auto simp: extends_iff)
qed

lemma callWithRetry_extends':
  assumes "callWithRetry cfg R req fn s = (r, s')" and "P req"
  shows "extends P s s'"
  using callWithRetry_extends [of req s cfg R fn] assms
  by (auto intro: extends_mono)

lemma doubling_invariant:
  assumes step: "\<And>n s. Q s (snd (estimate n s))"
    and refl: "\<And>s. Q s s"
    and trans: "\<And>a b c. Q a b \<Longrightarrow> Q b c \<Longrightarrow> Q a c"
    and "1 \<le> test"
    and "doubling estimate gasBudget test low high safe s = Some (r, s')"
  shows "Q s s'"
  using assms(4,5)
proof (induction "Suc high - test" arbitrary: test low safe s rule: less_induct)
  case less
  show ?case
  proof (cases "test \<le> high")
    case False
    with less.prems(2) have "s' = s" by (subst (asm) doubling.simps) simp
    then show ?thesis by (simp add: refl)
  next
    case True
    obtain est s1 where est: "estimate test s = (est, s1)"
      by (cases "estimate test s")
    have q1: "Q s s1" using step [of s test] est by simp
    show ?thesis
    proof (cases "notSafe gasBudget est \<or> test = high")
      case stop: True
      with less.prems(2) True est have "s' = s1"
        by (subst (asm) doubling.simps) (auto split: if_splits)
      with q1 show ?thesis by simp
    next
      case False
      have "doubling estimate gasBudget test low high safe s
              = doubling estimate gasBudget (test * 2) test high test s1"
        using False True est by (subst doubling.simps) simp
      with less.prems(2)
      have rec: "doubling estimate gasBudget (test * 2) test high test s1 = Some (r, s')"
        by simp
      have m: "Suc high - test * 2 < Suc high - test"
        using True less.prems(1) by arith
      have "1 \<le> test * 2" using less.prems(1) by simp
      from less.hyps [OF m this rec] have "Q s1 s'" .
      with q1 show ?thesis by (rule trans)
    qed
  qed
qed

lemma binary_search_invariant:
  assumes step: "\<And>n s. Q s (snd (estimate n s))"
    and refl: "\<And>s. Q s s"
    and trans: "\<And>a b c. Q a b \<Longrightarrow> Q b c \<Longrightarrow> Q a c"
  shows "Q s (snd (binary_search estimate gasBudget low high safe s))"
proof (induction "high - low" arbitrary: low high safe s rule: less_induct)
  case less
  show ?case
  proof (cases "low + 1 < high")
    case False
    then show ?thesis by (subst binary_search.simps) (simp add: refl)
  next
    case True
    let ?mid = "(low + high) div 2"
    obtain est s1 where est: "estimate ?mid s = (est, s1)"
      by (cases "estimate ?mid s")
    have q1: "Q s s1" using step [of s ?mid] est by simp
    have m1: "high - ?mid < high - low" and m2: "?mid - low < high - low"
      using True by arith+
    show ?thesis
    proof (cases "isSafe gasBudget est")
      case safe: True
      have "binary_search estimate gasBudget low high safe s
              = binary_search estimate gasBudget ?mid high ?mid s1"
        using True est safe by (subst binary_search.simps) (simp add: Let_def)
      with less.hyps [OF m1] q1 show ?thesis
        by (metis trans)
    next
      case unsafe: False
      have "binary_search estimate gasBudget low high safe s
              = binary_search estimate gasBudget low ?mid safe s1"
        using True est unsafe by (subst binary_search.simps) (simp add: Let_def)
      with less.hyps [OF m2] q1 show ?thesis
        by (metis trans)
    qed
  qed
qed

lemma searchChunkSize_invariant:
  assumes step: "\<And>n s. Q s (snd (estimate n s))"
    and refl: "\<And>s. Q s s"
    and trans: "\<And>a b c. Q a b \<Longrightarrow> Q b c \<Longrightarrow> Q a c"
    and "searchChunkSize estimate gasBudget high0 s = Some (c, s')"
  shows "Q s s'"
proof -
  from assms(4) obtain low high safe s1 where
    d: "doubling estimate gasBudget 1 1 high0 1 s = Some ((low, high, safe), s1)"
    and b: "snd (binary_search estimate gasBudget low high safe s1) = s'"
    by (auto simp: searchChunkSize_def split: option.splits prod.splits)
  have one: "(1::nat) \<le> 1" by simp
  have "Q s s1"
    using step refl trans one d by (rule doubling_invariant)
  moreover have "Q s1 s'"
    using binary_search_invariant [of Q estimate s1 gasBudget low high safe, OF step refl trans] b
    by simp
  ultimately show ?thesis by (rule trans)
qed

lemma estimateForCount_extends:
  "extends isEstimate s (snd (estimateForCount cfg R recipients amounts count s))"
proof -
  let ?r = "slice recipients 0 count" and ?a = "slice amounts 0 count"
  have n: "extends isEstimate s
             (snd (callWithRetry cfg R (EstimateGasNative ?r ?a (sum_list ?a))
                     (\<lambda>k. estimateGas_native R k ?r ?a (sum_list ?a)) s))"
    by (rule extends_mono [OF callWithRetry_extends]) simp
  have e: "extends isEstimate s
             (snd (callWithRetry cfg R (EstimateGasERC20 ?r ?a)
                     (\<lambda>k. estimateGas_erc20 R k ?r ?a) s))"
    by (rule extends_mono [OF callWithRetry_extends]) simp
  show ?thesis
    using n e by (auto simp: estimateForCount_def Let_def split: prod.splits sum.splits)
qed

lemma search_extends:
  assumes "searchChunkSize (estimateForCount cfg R recipients amounts) gasBudget high0 s
             = Some (c, s')"
  shows "extends isEstimate s s'"
  using estimateForCount_extends extends_refl extends_trans assms
  by (rule searchChunkSize_invariant)

lemma fetchDecimals_extends:
  "extends (\<lambda>r. r = TokenDecimals) (rpc w) (rpc (snd (fetchDecimals cfg R w)))"
  using callWithRetry_extends [of TokenDecimals "rpc w" cfg R "token_decimals R"]
  by (auto simp: fetchDecimals_def split: option.splits prod.splits sum.splits)

lemma fetchDecimals_fs [simp]: "fs (snd (fetchDecimals cfg R w)) = fs w"
  by (auto simp: fetchDecimals_def split: option.splits prod.splits sum.splits)

lemma loadCheckpoints_rpc [simp]: "rpc (snd (loadCheckpoints cfg w)) = rpc w"
  by (auto simp: loadCheckpoints_def Let_def split: ckfile.splits)

lemma fetchGasBudget_extends:
  "extends (\<lambda>r. r = GetBlock) s (snd (fetchGasBudget L cfg R s))"
  using callWithRetry_extends [of GetBlock s cfg R "provider_getBlock R"]
  by (auto simp: fetchGasBudget_def Let_def split: option.splits prod.splits sum.splits)

lemma markSent_rpc [simp]: "rpc (snd (snd (markSent cfg R c st))) = rpc (snd (snd st))"
  by (cases st) (auto simp: markSent_def Let_def split: option.splits)

lemma calls_interChunkSleep [simp]: "calls (rpc (interChunkSleep cfg w)) = calls (rpc w)"
  by (simp add: interChunkSleep_def)

lemma extends_calls_left: "calls s = calls t \<Longrightarrow> extends P s u \<Longrightarrow> extends P t u"
  by (simp add: extends_def)

lemma sendChunks_extends:
  "extends (\<lambda>r. isBatch r \<or> isWait r) (rpc w)
     (rpc (snd (snd (snd (sendChunks cfg R cs (K, cps, w))))))"
proof (induction cs arbitrary: K cps w)
  case Nil
  then show ?case by simp
next
  case (Cons c cs)
  let ?P = "\<lambda>r. isBatch r \<or> isWait r"
  let ?r = "map address c" and ?a = "map amt c"
  let ?send = "if isNative cfg
               then callWithRetry cfg R (BatchTransferNative ?r ?a (sum_list ?a))
                      (\<lambda>k. batchTransferNative R k ?r ?a (sum_list ?a)) (rpc w)
               else callWithRetry cfg R (BatchTransferERC20 ?r ?a)
                      (\<lambda>k. batchTransferERC20 R k ?r ?a) (rpc w)"
  obtain r1 s1 where send: "?send = (r1, s1)" by (cases ?send)
  have e1: "extends ?P (rpc w) s1"
    using send by (auto split: if_splits intro: callWithRetry_extends')
  show ?case
  proof (cases r1)
    case (Inl e)
    with send e1 show ?thesis by (auto simp: Let_def split: if_splits)
  next
    case (Inr tx)
    obtain r2 s2 where wait: "callWithRetry cfg R (TxWait tx) (\<lambda>k. tx_wait R k tx) s1 = (r2, s2)"
      by (cases "callWithRetry cfg R (TxWait tx) (\<lambda>k. tx_wait R k tx) s1")
    have "extends ?P s1 s2"
      using wait by (rule callWithRetry_extends') simp
    with e1 have e2: "extends ?P (rpc w) s2" by (rule extends_trans)
    show ?thesis
    proof (cases r2)
      case (Inl e)
      with send wait Inr e2 show ?thesis by (auto simp: Let_def split: if_splits)
    next
      case rc: (Inr rcpt)
      obtain K1 cps1 w1 where m: "markSent cfg R c (K, cps, w\<lparr>rpc := s2\<rparr>) = (K1, cps1, w1)"
        by (cases "markSent cfg R c (K, cps, w\<lparr>rpc := s2\<rparr>)")
      have r1: "rpc w1 = s2" using markSent_rpc [of cfg R c "(K, cps, w\<lparr>rpc := s2\<rparr>)"] m by simp
      have "extends ?P (rpc (interChunkSleep cfg w1))
              (rpc (snd (snd (snd (sendChunks cfg R cs (K1, cps1, interChunkSleep cfg w1))))))"
        by (rule Cons.IH)
      moreover have "calls (rpc (interChunkSleep cfg w1)) = calls s2"
        using r1 by simp
      ultimately have "extends ?P s2
              (rpc (snd (snd (snd (sendChunks cfg R cs (K1, cps1, interChunkSleep cfg w1))))))"
        by (rule extends_calls_left [rotated])
      with e2 have "extends ?P (rpc w)
              (rpc (snd (snd (snd (sendChunks cfg R cs (K1, cps1, interChunkSleep cfg w1))))))"
        by (rule extends_trans)
      with send wait Inr rc m show ?thesis by (auto simp: Let_def split: if_splits)
    qed
  qed
qed

section \<open>Runs with checkpoints disabled\<close>

lemma validateEntries_disabled:
  assumes "DISABLE_CHECKPOINTS cfg"
    and "validateEntries L cfg decimals sentKeys es (v, skI, skZ) = Inr (v', i, z)"
  shows "v' = v @ map (validated L cfg decimals) (filter (otherwiseValid L cfg decimals) es)"
  using assms(2)
proof (induction es arbitrary: v skI skZ)
  case Nil
  then show ?case by simp
next
  case (Cons e es)
  show ?case
  proof (cases "isAddress L (address e)")
    case False
    with Cons show ?thesis by (simp add: otherwiseValid_def)
  next
    case True
    show ?thesis
    proof (cases "parseAmount L cfg decimals (amountStr e)")
      case None
      with True Cons.prems show ?thesis by (simp add: parseAmount_def)
    next
      case (Some a)
      show ?thesis
      proof (cases "a \<le> 0")
        case neg: True
        with True Some Cons.prems have
          "validateEntries L cfg decimals sentKeys es (v, skI, skZ + 1) = Inr (v', i, z)"
          by (simp add: parseAmount_def)
        from Cons.IH [OF this] show ?thesis
          using True Some neg by (simp add: otherwiseValid_def)
      next
        case pos: False
        with True Some Cons.prems assms(1) have
          "validateEntries L cfg decimals sentKeys es
             (v @ [\<lparr>address = address e, amountStr = amountStr e, amt = a\<rparr>], skI, skZ)
             = Inr (v', i, z)"
          by (simp add: parseAmount_def)
        from Cons.IH [OF this] show ?thesis
          using True Some pos by (simp add: otherwiseValid_def validated_def)
      qed
    qed
  qed
qed

lemma loadCheckpoints_disabled:
  "DISABLE_CHECKPOINTS cfg \<Longrightarrow> loadCheckpoints cfg w = ([], w)"
  by (simp add: loadCheckpoints_def)

lemma fetchDecimals_fs_update:
  "fetchDecimals cfg R (w\<lparr>fs := f\<rparr>)
     = (fst (fetchDecimals cfg R w), (snd (fetchDecimals cfg R w))\<lparr>fs := f\<rparr>)"
  by (auto simp: fetchDecimals_def split: option.splits prod.splits sum.splits)

lemma main_validate_disabled:
  assumes "DISABLE_CHECKPOINTS cfg"
  shows "main_validate L cfg R input (w\<lparr>fs := f\<rparr>)
           = (case main_validate L cfg R input w of
                (res, K, cps, w2) \<Rightarrow> (res, K, cps, w2\<lparr>fs := f\<rparr>))"
  using assms
  by (cases "fetchDecimals cfg R w")
     (auto simp: main_validate_def Let_def loadCheckpoints_disabled fetchDecimals_fs_update
           split: sum.splits prod.splits)

lemma main_prepare_disabled:
  assumes "DISABLE_CHECKPOINTS cfg"
  shows "main_prepare L cfg R input (w\<lparr>fs := f\<rparr>)
           = (case main_prepare L cfg R input w of
                (res, K, cps, w4) \<Rightarrow> (res, K, cps, w4\<lparr>fs := f\<rparr>))"
  by (cases "main_validate L cfg R input w")
     (auto simp: main_prepare_def Let_def main_validate_disabled [OF assms]
           split: sum.splits prod.splits)

lemma markSent_disabled:
  "DISABLE_CHECKPOINTS cfg \<Longrightarrow> markSent cfg R c st = st"
  by (cases st) (simp add: markSent_def)

lemma interChunkSleep_fs_update:
  "interChunkSleep cfg (w\<lparr>fs := f\<rparr>) = (interChunkSleep cfg w)\<lparr>fs := f\<rparr>"
  by (simp add: interChunkSleep_def)

lemma sendChunks_disabled:
  assumes "DISABLE_CHECKPOINTS cfg"
    and "rpc v = rpc w" and "console v = console w"
  shows "sendChunks cfg R cs (K, cps, v)
           = (case sendChunks cfg R cs (K, cps, w) of
                (res, K', cps', w') \<Rightarrow> (res, K', cps', w'\<lparr>fs := fs v\<rparr>))"
  using assms(2,3)
proof (induction cs arbitrary: v w)
  case Nil
  then show ?case by (auto intro!: world.equality)
next
  case (Cons c cs)
  let ?r = "map address c" and ?a = "map amt c"
  let ?send = "if isNative cfg
               then callWithRetry cfg R (BatchTransferNative ?r ?a (sum_list ?a))
                      (\<lambda>k. batchTransferNative R k ?r ?a (sum_list ?a)) (rpc w)
               else callWithRetry cfg R (BatchTransferERC20 ?r ?a)
                      (\<lambda>k. batchTransferERC20 R k ?r ?a) (rpc w)"
  obtain r1 s1 where send: "?send = (r1, s1)" by (cases ?send)
  show ?case
  proof (cases r1)
    case (Inl e)
    with send Cons.prems show ?thesis
      by (auto simp: Let_def split: if_splits intro!: world.equality)
  next
    case (Inr tx)
    obtain r2 s2 where wait: "callWithRetry cfg R (TxWait tx) (\<lambda>k. tx_wait R k tx) s1 = (r2, s2)"
      by (cases "callWithRetry cfg R (TxWait tx) (\<lambda>k. tx_wait R k tx) s1")
    show ?thesis
    proof (cases r2)
      case (Inl e)
      with send wait Inr Cons.prems show ?thesis
        by (auto simp: Let_def split: if_splits intro!: world.equality)
    next
      case rc: (Inr rcpt)
      have "rpc (interChunkSleep cfg (v\<lparr>rpc := s2\<rparr>)) = rpc (interChunkSleep cfg (w\<lparr>rpc := s2\<rparr>))"
           "console (interChunkSleep cfg (v\<lparr>rpc := s2\<rparr>))
              = console (interChunkSleep cfg (w\<lparr>rpc := s2\<rparr>))"
        using Cons.prems by (simp_all add: interChunkSleep_def)
      from Cons.IH [OF this] send wait Inr rc Cons.prems
      show ?thesis
        by (auto simp: Let_def markSent_disabled [OF assms(1)] split: if_splits)
    qed
  qed
qed

lemma main_disabled:
  assumes "DISABLE_CHECKPOINTS cfg"
  shows "main L cfg R input (w\<lparr>fs := f\<rparr>)
           = map_option (\<lambda>(res, K, cps, w'). (res, K, cps, w'\<lparr>fs := f\<rparr>))
               (main L cfg R input w)"
proof (cases "main_prepare L cfg R input w")
  case (fields res K cps w4)
  show ?thesis
  proof (cases res)
    case (Inl err)
    with fields show ?thesis
      by (simp add: main_def main_prepare_disabled [OF assms])
  next
    case (Inr p)
    obtain validEntries gasBudget where p: "p = (validEntries, gasBudget)" by (cases p)
    have sc: "\<And>cs b. sendChunks cfg R cs (K, cps, w4\<lparr>fs := f, rpc := b\<rparr>)
                 = (case sendChunks cfg R cs (K, cps, w4\<lparr>rpc := b\<rparr>) of
                      (res, K', cps', w') \<Rightarrow> (res, K', cps', w'\<lparr>fs := f\<rparr>))"
      using sendChunks_disabled [OF assms, of "w4\<lparr>fs := f, rpc := b\<rparr>" "w4\<lparr>rpc := b\<rparr>" for b]
      by simp
    show ?thesis
      using fields Inr p
      by (auto simp: main_def Let_def main_prepare_disabled [OF assms] sc
            split: option.splits prod.splits)
  qed
qed

section \<open>The transfers of a run\<close>

lemma transferOf_not_batch: "\<not> isBatch (fst c) \<Longrightarrow> transferOf c = []"
  by (cases c rule: transferOf.cases) simp_all

lemma transferOf_failed [simp]: "transferOf (req, False) = []"
  by (cases req) simp_all

lemma extends_transfers:
  assumes "extends P s s'" and "\<And>r. P r \<Longrightarrow> \<not> isBatch r"
  shows "concat (map transferOf (calls s')) = concat (map transferOf (calls s))"
proof -
  from assms(1) obtain xs where xs: "calls s' = calls s @ xs" "\<forall>c \<in> set xs. P (fst c)"
    by (auto simp: extends_iff)
  then have "\<forall>c \<in> set xs. transferOf c = []"
    using assms(2) by (auto intro: transferOf_not_batch)
  then have "concat (map transferOf xs) = []" by simp
  with xs(1) show ?thesis by simp
qed

lemma callWithRetry_transfers:
  assumes "callWithRetry cfg R req fn s = (Inr v, s')"
  shows "concat (map transferOf (calls s'))
           = concat (map transferOf (calls s)) @ transferOf (req, True)"
proof -
  from callWithRetry_calls [of cfg R req fn s] assms obtain n where
    "calls s' = calls s @ replicate n (req, False) @ [(req, True)]"
    by auto
  moreover have "concat (map transferOf (replicate n (req, False))) = []"
    by (induction n) simp_all
  ultimately show ?thesis by simp
qed

lemma transfers_interChunkSleep [simp]: "transfers (interChunkSleep cfg w) = transfers w"
  by (simp add: transfers_def)

lemma sendChunks_transfers:
  assumes "sendChunks cfg R cs (K, cps, w) = (Inr (), K', cps', w')"
  shows "transfers w' = transfers w @ map (\<lambda>e. (address e, amt e)) (concat cs)"
  using assms
proof (induction cs arbitrary: K cps w)
  case Nil
  then show ?case by simp
next
  case (Cons c cs)
  let ?r = "map address c" and ?a = "map amt c"
  let ?send = "if isNative cfg
               then callWithRetry cfg R (BatchTransferNative ?r ?a (sum_list ?a))
                      (\<lambda>k. batchTransferNative R k ?r ?a (sum_list ?a)) (rpc w)
               else callWithRetry cfg R (BatchTransferERC20 ?r ?a)
                      (\<lambda>k. batchTransferERC20 R k ?r ?a) (rpc w)"
  obtain r1 s1 where send: "?send = (r1, s1)" by (cases ?send)
  show ?case
  proof (cases r1)
    case (Inl e)
    with send Cons.prems show ?thesis by (auto simp: Let_def split: if_splits)
  next
    case (Inr tx)
    have zip: "zip ?r ?a = map (\<lambda>e. (address e, amt e)) c"
      by (induction c) simp_all
    have t1: "concat (map transferOf (calls s1))
                = concat (map transferOf (calls (rpc w))) @ map (\<lambda>e. (address e, amt e)) c"
      using send Inr zip by (auto split: if_splits dest: callWithRetry_transfers)
    obtain r2 s2 where wait: "callWithRetry cfg R (TxWait tx) (\<lambda>k. tx_wait R k tx) s1 = (r2, s2)"
      by (cases "callWithRetry cfg R (TxWait tx) (\<lambda>k. tx_wait R k tx) s1")
    show ?thesis
    proof (cases r2)
      case (Inl e)
      with send wait Inr Cons.prems show ?thesis by (auto simp: Let_def split: if_splits)
    next
      case rc: (Inr rcpt)
      have t2: "concat (map transferOf (calls s2)) = concat (map transferOf (calls s1))"
        using callWithRetry_transfers [of cfg R "TxWait tx" "\<lambda>k. tx_wait R k tx" s1 rcpt s2]
          wait rc by simp
      obtain K1 cps1 w1 where m: "markSent cfg R c (K, cps, w\<lparr>rpc := s2\<rparr>) = (K1, cps1, w1)"
        by (cases "markSent cfg R c (K, cps, w\<lparr>rpc := s2\<rparr>)")
      have r1: "rpc w1 = s2"
        using markSent_rpc [of cfg R c "(K, cps, w\<lparr>rpc := s2\<rparr>)"] m by simp
      from send wait Inr rc m Cons.prems
      have "sendChunks cfg R cs (K1, cps1, interChunkSleep cfg w1) = (Inr (), K', cps', w')"
        by (auto simp: Let_def split: if_splits)
      from Cons.IH [OF this] show ?thesis
        using r1 t1 t2 by (simp add: transfers_def)
    qed
  qed
qed

lemma searchChunkSize_positive:
  "searchChunkSize estimate gasBudget high0 s = Some (c, s') \<Longrightarrow> 1 \<le> c"
  by (auto simp: searchChunkSize_def split: option.splits prod.splits)

lemma chunk_concat:
  assumes "1 \<le> sz"
  shows "\<exists>cs. chunk array sz = Some cs \<and> concat cs = array"
  using chunk_loop_total [OF assms, of array 0 "[]"] by (auto simp: chunk_def)

lemma authorize_extends:
  "extends isAuthorization s (snd (authorize cfg R totl s))"
proof -
  have c: "\<And>req fn s r s'. callWithRetry cfg R req fn s = (r, s') \<Longrightarrow> isAuthorization req
              \<Longrightarrow> extends isAuthorization s s'"
    by (rule callWithRetry_extends')
  show ?thesis
    unfolding authorize_def
    by (auto split: prod.splits sum.splits dest!: c intro: extends_trans)
qed

lemma main_validate_extends:
  "extends (\<lambda>r. r = TokenDecimals) (rpc w)
     (rpc (snd (snd (snd (main_validate L cfg R input w)))))"
  using fetchDecimals_extends [of "snd (loadCheckpoints cfg w)" cfg R]
  by (auto simp: main_validate_def Let_def split: prod.splits sum.splits)

section \<open>What a run of \<open>main\<close> that ends normally has gone through\<close>

lemma main_prepare_InrD:
  assumes "main_prepare L cfg R input w = (Inr (validEntries, gb), K, cps, w4)"
  shows "\<exists>w2 s3. main_validate L cfg R input w = (Inr validEntries, K, cps, w2)
           \<and> authorize cfg R (sum_list (map amt validEntries)) (rpc w2) = (Inr (), s3)
           \<and> fetchGasBudget L cfg R s3 = (Inr gb, rpc w4)
           \<and> w4 = w2\<lparr>rpc := rpc w4\<rparr>"
  using assms
  by (auto simp: main_prepare_def Let_def split: prod.splits sum.splits)

lemma main_InrD:
  assumes "main L cfg R input w = Some (Inr (), K', cps', w')"
  shows "\<exists>validEntries gb K cps w4 c s5 cs.
           main_prepare L cfg R input w = (Inr (validEntries, gb), K, cps, w4)
           \<and> searchChunkSize
                (estimateForCount cfg R (map address validEntries) (map amt validEntries))
                gb (min (length validEntries) 512) (rpc w4) = Some (c, s5)
           \<and> chunk validEntries c = Some cs
           \<and> sendChunks cfg R cs (K, cps, w4\<lparr>rpc := s5\<rparr>) = (Inr (), K', cps', w')"
  using assms
  by (auto simp: main_def Let_def split: prod.splits sum.splits option.splits)

lemma isAuthorization_not_batch: "isAuthorization r \<Longrightarrow> \<not> isBatch r"
  by (cases r) simp_all

lemma isEstimate_not_batch: "isEstimate r \<Longrightarrow> \<not> isBatch r"
  by (cases r) simp_all

lemma main_transfers:
  assumes "main L cfg R input w = Some (Inr (), K', cps', w')"
  shows "\<exists>validEntries K cps w2.
           main_validate L cfg R input w = (Inr validEntries, K, cps, w2)
           \<and> transfers w' = transfers w @ map (\<lambda>e. (address e, amt e)) validEntries"
proof -
  from main_InrD [OF assms] obtain validEntries gb K cps w4 c s5 cs where
    prep: "main_prepare L cfg R input w = (Inr (validEntries, gb), K, cps, w4)"
    and search: "searchChunkSize
                (estimateForCount cfg R (map address validEntries) (map amt validEntries))
                gb (min (length validEntries) 512) (rpc w4) = Some (c, s5)"
    and ch: "chunk validEntries c = Some cs"
    and send: "sendChunks cfg R cs (K, cps, w4\<lparr>rpc := s5\<rparr>) = (Inr (), K', cps', w')"
    by blast
  from main_prepare_InrD [OF prep] obtain w2 s3 where
    val: "main_validate L cfg R input w = (Inr validEntries, K, cps, w2)"
    and auth: "authorize cfg R (sum_list (map amt validEntries)) (rpc w2) = (Inr (), s3)"
    and gas: "fetchGasBudget L cfg R s3 = (Inr gb, rpc w4)"
    by blast
  let ?t = "\<lambda>s. concat (map transferOf (calls s))"
  have "?t (rpc w2) = ?t (rpc w)"
    using main_validate_extends [of w L cfg R input] val
    by (auto intro: extends_transfers)
  moreover have "?t s3 = ?t (rpc w2)"
    using authorize_extends [of "rpc w2" cfg R "sum_list (map amt validEntries)"] auth
      extends_transfers [of isAuthorization "rpc w2" s3, OF _ isAuthorization_not_batch]
    by simp
  moreover have "?t (rpc w4) = ?t s3"
    using fetchGasBudget_extends [of s3 L cfg R] gas
    by (auto intro: extends_transfers)
  moreover have "?t s5 = ?t (rpc w4)"
    using search_extends [OF search]
      extends_transfers [of isEstimate "rpc w4" s5, OF _ isEstimate_not_batch]
    by simp
  ultimately have before: "transfers (w4\<lparr>rpc := s5\<rparr>) = transfers w"
    by (simp add: transfers_def)
  have "1 \<le> c" using search by (rule searchChunkSize_positive)
  from chunk_concat [OF this, of validEntries] ch have "concat cs = validEntries" by simp
  with sendChunks_transfers [OF send] before val show ?thesis by simp
qed

lemma main_validate_disabled_entries:
  assumes "DISABLE_CHECKPOINTS cfg"
    and "main_validate L cfg R input w = (Inr validEntries, K, cps, w2)"
  shows "validEntries
           = map (validated L cfg (fst (fetchDecimals cfg R w)))
               (filter (otherwiseValid L cfg (fst (fetchDecimals cfg R w))) input)"
proof -
  obtain dec w1 where d: "fetchDecimals cfg R w = (dec, w1)" by (cases "fetchDecimals cfg R w")
  from assms(2) d obtain i z where
    "validateEntries L cfg dec (new_Set (sessionKeys (sessionId cfg) [])) input ([], 0, 0)
       = Inr (validEntries, i, z)"
    by (auto simp: main_validate_def Let_def loadCheckpoints_disabled [OF assms(1)]
          split: if_splits sum.splits prod.splits)
  from validateEntries_disabled [OF assms(1) this] d show ?thesis by simp
qed

text \<open>
  Claim C10. With checkpoints disabled, the run does not depend on the checkpoint file
  and leaves it as it is: run beside any other file, \<open>main\<close> does the same, and at the
  end the file and the record of file system operations are those of the start (no
  \<^verbatim>\<open>existsSync\<close>, no read, no write). The working set is every entry with a valid
  address and a positive amount, whatever keys a checkpoint file holds, and a run that
  ends normally has submitted exactly these entries, in order.
\<close>

theorem disabled_checkpoints_leave_the_file_alone:
  assumes "DISABLE_CHECKPOINTS cfg"
  shows "main L cfg R input (w\<lparr>fs := f\<rparr>)
           = map_option (\<lambda>(res, K, cps, w'). (res, K, cps, w'\<lparr>fs := f\<rparr>))
               (main L cfg R input w)
       \<and> (main L cfg R input w = Some (res, K', cps', w') \<longrightarrow> fs w' = fs w)
       \<and> (main_validate L cfg R input w = (Inr validEntries, K, cps, w2) \<longrightarrow>
            validEntries
              = map (validated L cfg (fst (fetchDecimals cfg R w)))
                  (filter (otherwiseValid L cfg (fst (fetchDecimals cfg R w))) input))
       \<and> (main L cfg R input w = Some (Inr (), K', cps', w') \<longrightarrow>
            transfers w'
              = transfers w
                  @ map (\<lambda>e. (address e, amt e))
                      (map (validated L cfg (fst (fetchDecimals cfg R w)))
                         (filter (otherwiseValid L cfg (fst (fetchDecimals cfg R w))) input)))"
proof (intro conjI impI)
  show a: "main L cfg R input (w\<lparr>fs := f\<rparr>)
           = map_option (\<lambda>(res, K, cps, w'). (res, K, cps, w'\<lparr>fs := f\<rparr>))
               (main L cfg R input w)" for f
    using assms by (rule main_disabled)
  show "fs w' = fs w" if "main L cfg R input w = Some (res, K', cps', w')"
  proof -
    have "main L cfg R input (w\<lparr>fs := fs w\<rparr>) = Some (res, K', cps', w'\<lparr>fs := fs w\<rparr>)"
      unfolding a using that by simp
    with that have "w' = w'\<lparr>fs := fs w\<rparr>" by simp
    then have "fs w' = fs (w'\<lparr>fs := fs w\<rparr>)" by simp
    then show ?thesis by simp
  qed
  show "validEntries
              = map (validated L cfg (fst (fetchDecimals cfg R w)))
                  (filter (otherwiseValid L cfg (fst (fetchDecimals cfg R w))) input)"
    if "main_validate L cfg R input w = (Inr validEntries, K, cps, w2)"
    using assms that by (rule main_validate_disabled_entries)
  show "transfers w'
              = transfers w
                  @ map (\<lambda>e. (address e, amt e))
                      (map (validated L cfg (fst (fetchDecimals cfg R w)))
                         (filter (otherwiseValid L cfg (fst (fetchDecimals cfg R w))) input))"
    if "main L cfg R input w = Some (Inr (), K', cps', w')"
  proof -
    from main_transfers [OF that] obtain v K cps w2 where
      "main_validate L cfg R input w = (Inr v, K, cps, w2)"
      "transfers w' = transfers w @ map (\<lambda>e. (address e, amt e)) v"
      by blast
    with main_validate_disabled_entries [OF assms this(1)] show ?thesis by simp
  qed
qed


theorem disabled_checkpoints_leave_the_file_alone_witness:
  "DISABLE_CHECKPOINTS demo_config_disabled
   \<and> main demo_lib demo_config_disabled demo_remote demo_entries (world0 (Doc demo_checkpoint))
       = Some (Inr (), [], [], demo_sent_disabled)
   \<and> main demo_lib demo_config_disabled demo_remote demo_entries
         ((world0 (Doc demo_checkpoint))\<lparr>fs := \<lparr>ckfile = Absent, fslog = []\<rparr>\<rparr>)
       = Some (Inr (), [], [], demo_sent_disabled\<lparr>fs := \<lparr>ckfile = Absent, fslog = []\<rparr>\<rparr>)
   \<and> fs demo_sent_disabled = fs (world0 (Doc demo_checkpoint))
   \<and> transfers demo_sent_disabled = [(''AAA'', 100), (''BBB'', 505), (''CCC'', 25)]"
proof -
  let ?w = "world0 (Doc demo_checkpoint)"
  have a: "DISABLE_CHECKPOINTS demo_config_disabled"
    by (simp add: demo_config_disabled_def)
  have run: "main demo_lib demo_config_disabled demo_remote demo_entries ?w
       = Some (Inr (), [], [], demo_sent_disabled)"
    by (simp add: run_defs demo_config_disabled_def demo_sent_disabled_def demo_checkpoint_def)
  note inst = disabled_checkpoints_leave_the_file_alone [OF a,
      where L = demo_lib and R = demo_remote and input = demo_entries and w = ?w
        and res = "Inr ()" and K' = "[]" and cps' = "[]" and w' = demo_sent_disabled
        and f = "\<lparr>ckfile = Absent, fslog = []\<rparr>"]
  have other: "main demo_lib demo_config_disabled demo_remote demo_entries
         (?w\<lparr>fs := \<lparr>ckfile = Absent, fslog = []\<rparr>\<rparr>)
       = Some (Inr (), [], [], demo_sent_disabled\<lparr>fs := \<lparr>ckfile = Absent, fslog = []\<rparr>\<rparr>)"
    using inst [THEN conjunct1] run by simp
  have same: "fs demo_sent_disabled = fs ?w"
    using inst [THEN conjunct2, THEN conjunct1] run by simp
  have "fst (fetchDecimals demo_config_disabled demo_remote ?w) = 1"
    by (simp add: run_defs demo_config_disabled_def)
  moreover have "map (\<lambda>e. (address e, amt e))
          (map (validated demo_lib demo_config_disabled 1)
             (filter (otherwiseValid demo_lib demo_config_disabled 1) demo_entries))
        = [(''AAA'', 100), (''BBB'', 505), (''CCC'', 25)]"
    by (simp add: validated_def otherwiseValid_def parseAmount_def demo_entries_def
          demo_lib_def demo_config_disabled_def demo_config_def)
  moreover have "transfers ?w = []"
    by (simp add: transfers_def world0_def rpc0_def)
  ultimately have tr: "transfers demo_sent_disabled = [(''AAA'', 100), (''BBB'', 505), (''CCC'', 25)]"
    using inst [THEN conjunct2, THEN conjunct2, THEN conjunct2] run by simp
  show ?thesis
    by (intro conjI) (rule a, rule run, rule other, rule same, rule tr)
qed

section \<open>The authorization request\<close>

lemma isAuthorization_not_estimate_batch:
  "r = TokenDecimals \<or> r = GetBlock \<or> isEstimate r \<Longrightarrow> \<not> isApprove r \<and> \<not> isBatch r"
  by (cases r) auto

lemma callWithRetry_calls':
  assumes "callWithRetry cfg R req fn s = (r, s')"
  shows "\<exists>n. calls s' = calls s @ replicate n (req, False) @ [(req, \<not> isl r)]"
  using callWithRetry_calls [of cfg R req fn s] assms by simp

lemma filter_replicate_False [simp]:
  "\<not> P x \<Longrightarrow> filter P (replicate n x) = []"
  by (induction n) simp_all

lemma filter_replicate_True [simp]:
  "P x \<Longrightarrow> filter P (replicate n x) = replicate n x"
  by (induction n) simp_all

lemma authorize_token_calls:
  assumes "\<not> isNative cfg" and "authorize cfg R totl s = (r, s3)"
  shows "\<exists>A n b. calls s3 = calls s @ A \<and> (\<forall>c \<in> set A. isAuthorization (fst c))
          \<and> filter (\<lambda>c. isApprove (fst c)) A
              = (if (\<exists>a s1. callWithRetry cfg R TokenAllowance (token_allowance R) s = (Inr a, s1)
                           \<and> a < totl)
                 then replicate n (TokenApprove totl, False) @ [(TokenApprove totl, b)]
                 else [])"
proof -
  obtain ra s1 where al: "callWithRetry cfg R TokenAllowance (token_allowance R) s = (ra, s1)"
    by (cases "callWithRetry cfg R TokenAllowance (token_allowance R) s")
  from callWithRetry_calls' [OF al] obtain n0 where
    c1: "calls s1 = calls s @ replicate n0 (TokenAllowance, False) @ [(TokenAllowance, \<not> isl ra)]"
    by blast
  let ?A1 = "replicate n0 (TokenAllowance, False) @ [(TokenAllowance, \<not> isl ra)]"
  have A1: "\<forall>c \<in> set ?A1. isAuthorization (fst c)" "filter (\<lambda>c. isApprove (fst c)) ?A1 = []"
    by auto
  show ?thesis
  proof (cases "\<exists>a. ra = Inr a \<and> a < totl")
    case False
    then have "s3 = s1"
      using assms al by (cases ra) (auto simp: authorize_def)
    moreover have "\<not> (\<exists>a s1. callWithRetry cfg R TokenAllowance (token_allowance R) s = (Inr a, s1)
                           \<and> a < totl)"
      using False al by auto
    ultimately show ?thesis
      using c1 A1 by (intro exI [of _ ?A1]) simp
  next
    case True
    then obtain a where a: "ra = Inr a" "a < totl" by blast
    then have need: "\<exists>a s1. callWithRetry cfg R TokenAllowance (token_allowance R) s = (Inr a, s1)
                           \<and> a < totl"
      using al by blast
    obtain rb s2 where ap: "callWithRetry cfg R (TokenApprove totl)
                              (\<lambda>k. token_approve R k totl) s1 = (rb, s2)"
      by (cases "callWithRetry cfg R (TokenApprove totl) (\<lambda>k. token_approve R k totl) s1")
    from callWithRetry_calls' [OF ap] obtain n where
      c2: "calls s2 = calls s1 @ replicate n (TokenApprove totl, False)
                        @ [(TokenApprove totl, \<not> isl rb)]"
      by blast
    let ?A2 = "replicate n (TokenApprove totl, False) @ [(TokenApprove totl, \<not> isl rb)]"
    have A2: "\<forall>c \<in> set ?A2. isAuthorization (fst c)" "filter (\<lambda>c. isApprove (fst c)) ?A2 = ?A2"
      by auto
    show ?thesis
    proof (cases rb)
      case (Inl e)
      then have "s3 = s2"
        using assms al a ap by (auto simp: authorize_def)
      then have "calls s3 = calls s @ (?A1 @ ?A2)" using c1 c2 by simp
      moreover have "\<forall>c \<in> set (?A1 @ ?A2). isAuthorization (fst c)" using A1 A2 by auto
      moreover have "filter (\<lambda>c. isApprove (fst c)) (?A1 @ ?A2) = ?A2" using A1 A2 by simp
      ultimately show ?thesis using need by (intro exI [of _ "?A1 @ ?A2"]) auto
    next
      case (Inr tx)
      obtain rc s3' where wt: "callWithRetry cfg R (TxWait tx) (\<lambda>k. tx_wait R k tx) s2 = (rc, s3')"
        by (cases "callWithRetry cfg R (TxWait tx) (\<lambda>k. tx_wait R k tx) s2")
      from callWithRetry_calls' [OF wt] obtain n3 where
        c3: "calls s3' = calls s2 @ replicate n3 (TxWait tx, False) @ [(TxWait tx, \<not> isl rc)]"
        by blast
      let ?A3 = "replicate n3 (TxWait tx, False) @ [(TxWait tx, \<not> isl rc)]"
      have A3: "\<forall>c \<in> set ?A3. isAuthorization (fst c)" "filter (\<lambda>c. isApprove (fst c)) ?A3 = []"
        by auto
      have "s3 = s3'"
        using assms al a ap Inr wt by (cases rc) (auto simp: authorize_def)
      then have "calls s3 = calls s @ (?A1 @ ?A2 @ ?A3)" using c1 c2 c3 by simp
      moreover have "\<forall>c \<in> set (?A1 @ ?A2 @ ?A3). isAuthorization (fst c)"
        using A1 A2 A3 by auto
      moreover have "filter (\<lambda>c. isApprove (fst c)) (?A1 @ ?A2 @ ?A3) = ?A2"
        using A1 A2 A3 by simp
      ultimately show ?thesis using need by (intro exI [of _ "?A1 @ ?A2 @ ?A3"]) auto
    qed
  qed
qed

lemma main_phases:
  assumes "main_validate L cfg R input w = (Inr validEntries, K, cps, w2)"
    and "main L cfg R input w = Some (res, K', cps', w')"
  shows "\<exists>ra s3 s5. authorize cfg R (sum_list (map amt validEntries)) (rpc w2) = (ra, s3)
           \<and> extends (\<lambda>r. r = GetBlock \<or> isEstimate r) s3 s5
           \<and> extends (\<lambda>r. isBatch r \<or> isWait r) s5 (rpc w')"
proof -
  let ?totl = "sum_list (map amt validEntries)"
  obtain ra s3 where au: "authorize cfg R ?totl (rpc w2) = (ra, s3)"
    by (cases "authorize cfg R ?totl (rpc w2)")
  show ?thesis
  proof (cases ra)
    case (Inl err)
    with assms au have "rpc w' = s3"
      by (auto simp: main_def main_prepare_def Let_def)
    with au show ?thesis
      by (intro exI [of _ ra] exI [of _ s3]) simp
  next
    case (Inr un)
    obtain rg s4 where gas: "fetchGasBudget L cfg R s3 = (rg, s4)"
      by (cases "fetchGasBudget L cfg R s3")
    have e4: "extends (\<lambda>r. r = GetBlock \<or> isEstimate r) s3 s4"
      using fetchGasBudget_extends [of s3 L cfg R] gas
      by (auto intro: extends_mono)
    show ?thesis
    proof (cases rg)
      case (Inl err)
      with assms au Inr gas have "rpc w' = s4"
        by (auto simp: main_def main_prepare_def Let_def)
      with au e4 show ?thesis
        by (intro exI [of _ ra] exI [of _ s3] exI [of _ s4]) simp
    next
      case gb: (Inr gasBudget)
      from assms au Inr gas gb obtain c s5 cs where
        search: "searchChunkSize
                   (estimateForCount cfg R (map address validEntries) (map amt validEntries))
                   gasBudget (min (length validEntries) 512) s4 = Some (c, s5)"
        and send: "sendChunks cfg R cs (K, cps, w2\<lparr>rpc := s5\<rparr>) = (res, K', cps', w')"
        by (auto simp: main_def main_prepare_def Let_def split: option.splits prod.splits)
      have "extends (\<lambda>r. r = GetBlock \<or> isEstimate r) s4 s5"
        using search_extends [OF search] by (auto intro: extends_mono)
      with e4 have e5: "extends (\<lambda>r. r = GetBlock \<or> isEstimate r) s3 s5"
        by (rule extends_trans)
      have "extends (\<lambda>r. isBatch r \<or> isWait r) s5 (rpc w')"
        using sendChunks_extends [of "w2\<lparr>rpc := s5\<rparr>" cfg R cs K cps] send by simp
      with au e5 show ?thesis by blast
    qed
  qed
qed

lemma main_approve_once:
  assumes "\<not> isNative cfg"
    and "main_validate L cfg R input w = (Inr validEntries, K, cps, w2)"
    and "main L cfg R input w = Some (res, K', cps', w')"
  shows "\<exists>n b pre post.
           calls (rpc w') = calls (rpc w) @ pre @ post
         \<and> (\<forall>c \<in> set pre. \<not> isBatch (fst c))
         \<and> (\<forall>c \<in> set post. \<not> isApprove (fst c))
         \<and> filter (\<lambda>c. isApprove (fst c)) pre
             = (if (\<exists>a s1. callWithRetry cfg R TokenAllowance (token_allowance R) (rpc w2)
                              = (Inr a, s1)
                          \<and> a < sum_list (map amt validEntries))
                then replicate n (TokenApprove (sum_list (map amt validEntries)), False)
                       @ [(TokenApprove (sum_list (map amt validEntries)), b)]
                else [])"
proof -
  let ?totl = "sum_list (map amt validEntries)"
  from main_validate_extends [of w L cfg R input] assms(2) obtain D where
    D: "calls (rpc w2) = calls (rpc w) @ D" "\<forall>c \<in> set D. fst c = TokenDecimals"
    by (auto simp: extends_iff)
  from main_phases [OF assms(2,3)] obtain ra s3 s5 where
    au: "authorize cfg R ?totl (rpc w2) = (ra, s3)"
    and e5: "extends (\<lambda>r. r = GetBlock \<or> isEstimate r) s3 s5"
    and e6: "extends (\<lambda>r. isBatch r \<or> isWait r) s5 (rpc w')"
    by blast
  from authorize_token_calls [OF assms(1) au] obtain A n b where
    A: "calls s3 = calls (rpc w2) @ A" "\<forall>c \<in> set A. isAuthorization (fst c)"
    and fA: "filter (\<lambda>c. isApprove (fst c)) A
              = (if (\<exists>a s1. callWithRetry cfg R TokenAllowance (token_allowance R) (rpc w2)
                              = (Inr a, s1) \<and> a < ?totl)
                 then replicate n (TokenApprove ?totl, False) @ [(TokenApprove ?totl, b)]
                 else [])"
    by blast
  from e5 obtain G where
    G: "calls s5 = calls s3 @ G" "\<forall>c \<in> set G. fst c = GetBlock \<or> isEstimate (fst c)"
    by (auto simp: extends_iff)
  from e6 obtain S where
    S: "calls (rpc w') = calls s5 @ S" "\<forall>c \<in> set S. isBatch (fst c) \<or> isWait (fst c)"
    by (auto simp: extends_iff)
  have nb: "\<forall>c \<in> set (D @ A @ G). \<not> isBatch (fst c)"
    using D(2) A(2) G(2) isAuthorization_not_batch isAuthorization_not_estimate_batch
    by (auto simp: isEstimate_not_batch)
  have na: "\<forall>c \<in> set S. \<not> isApprove (fst c)"
  proof
    fix c assume "c \<in> set S"
    with S(2) have "isBatch (fst c) \<or> isWait (fst c)" by blast
    then show "\<not> isApprove (fst c)" by (cases "fst c") auto
  qed
  have fD: "filter (\<lambda>c. isApprove (fst c)) D = []"
    using D(2) by (auto simp: filter_empty_conv)
  have fG: "filter (\<lambda>c. isApprove (fst c)) G = []"
    using G(2) isAuthorization_not_estimate_batch by (auto simp: filter_empty_conv)
  have "calls (rpc w') = calls (rpc w) @ (D @ A @ G) @ S"
    using D(1) A(1) G(1) S(1) by simp
  moreover have "filter (\<lambda>c. isApprove (fst c)) (D @ A @ G)
             = (if (\<exists>a s1. callWithRetry cfg R TokenAllowance (token_allowance R) (rpc w2)
                              = (Inr a, s1) \<and> a < ?totl)
                 then replicate n (TokenApprove ?totl, False) @ [(TokenApprove ?totl, b)]
                 else [])"
    using fD fA fG by simp
  ultimately show ?thesis
    using nb na by blast
qed

lemma invoke_calls':
  assumes "invoke req fn s = (r, s')"
  shows "calls s' = calls s @ [(req, \<not> isl r)]" and "r = fn (length (calls s))"
  using assms by (auto simp: invoke_def Let_def)

lemma invoke_extends:
  assumes "invoke req fn s = (r, s')" and "P req"
  shows "extends P s s'"
  using invoke_calls' [OF assms(1)] assms(2) by (auto simp: extends_iff)

lemma estCount_extends:
  "extends isEstimate s (snd (estCount R recips amts count s))"
  by (auto simp: estCount_def Let_def split: prod.splits sum.splits
           intro: invoke_extends)

lemma estimateChunkSize_extends:
  assumes "estimateChunkSize L R u recips amts maxTry s = Some (r, s')"
  shows "extends (\<lambda>r. r = GetBlock \<or> isEstimate r) s s'"
proof (cases "\<not> ui_connected u \<or> ui_batchAddress u = [] \<or> ui_tokenAddress u = []")
  case True
  with assms show ?thesis by (auto simp: estimateChunkSize_def)
next
  case False
  obtain rb s1 where gb: "invoke GetBlock (provider_getBlock R) s = (rb, s1)"
    by (cases "invoke GetBlock (provider_getBlock R) s")
  have e1: "extends (\<lambda>r. r = GetBlock \<or> isEstimate r) s s1"
    using gb by (rule invoke_extends) simp
  show ?thesis
  proof (cases rb)
    case (Inl e)
    with assms False gb e1 show ?thesis by (auto simp: estimateChunkSize_def)
  next
    case (Inr latest)
    let ?b = "gasBudget80 L (case latest of None \<Rightarrow> 30000000 | Some g \<Rightarrow> g)"
    from assms False gb Inr obtain c where
      se: "searchChunkSize (estCount R recips amts) ?b maxTry s1 = Some (c, s')"
      by (auto simp: estimateChunkSize_def Let_def split: option.splits)
    have "extends isEstimate s1 s'"
      using estCount_extends extends_refl extends_trans se
      by (rule searchChunkSize_invariant)
    then have "extends (\<lambda>r. r = GetBlock \<or> isEstimate r) s1 s'"
      by (auto intro: extends_mono)
    with e1 show ?thesis by (rule extends_trans)
  qed
qed

lemma ui_sendChunks_extends:
  "extends (\<lambda>r. isBatch r \<or> isWait r) s (snd (ui_sendChunks R pairs s))"
proof (induction pairs arbitrary: s)
  case Nil
  then show ?case by simp
next
  case (Cons p pairs)
  obtain r a where p: "p = (r, a)" by (cases p)
  let ?P = "\<lambda>r. isBatch r \<or> isWait r"
  obtain r1 s1 where send: "invoke (BatchTransferERC20 r a) (\<lambda>k. batchTransferERC20 R k r a) s
                              = (r1, s1)"
    by (cases "invoke (BatchTransferERC20 r a) (\<lambda>k. batchTransferERC20 R k r a) s")
  have e1: "extends ?P s s1" using send by (rule invoke_extends) simp
  show ?case
  proof (cases r1)
    case (Inl e)
    with p send e1 show ?thesis by simp
  next
    case (Inr tx)
    obtain r2 s2 where wait: "invoke (TxWait tx) (\<lambda>k. tx_wait R k tx) s1 = (r2, s2)"
      by (cases "invoke (TxWait tx) (\<lambda>k. tx_wait R k tx) s1")
    have "extends ?P s1 s2" using wait by (rule invoke_extends) simp
    with e1 have e2: "extends ?P s s2" by (rule extends_trans)
    show ?thesis
    proof (cases r2)
      case (Inl e)
      with p send Inr wait e2 show ?thesis by simp
    next
      case rc: (Inr rcpt)
      have "extends ?P (s2\<lparr>sleeps := sleeps s2 @ [750]\<rparr>)
              (snd (ui_sendChunks R pairs (s2\<lparr>sleeps := sleeps s2 @ [750]\<rparr>)))"
        by (rule Cons.IH)
      then have "extends ?P s2 (snd (ui_sendChunks R pairs (s2\<lparr>sleeps := sleeps s2 @ [750]\<rparr>)))"
        by (rule extends_calls_left [rotated]) simp
      with e2 have "extends ?P s (snd (ui_sendChunks R pairs (s2\<lparr>sleeps := sleeps s2 @ [750]\<rparr>)))"
        by (rule extends_trans)
      with p send Inr wait rc show ?thesis by simp
    qed
  qed
qed

lemma ui_authorize_calls:
  assumes "ui_authorize R totalWei s = (r, s')"
  shows "\<exists>A b. calls s' = calls s @ A \<and> (\<forall>c \<in> set A. isAuthorization (fst c))
          \<and> filter (\<lambda>c. isApprove (fst c)) A
              = (if (\<exists>a. token_allowance R (length (calls s)) = Inr a \<and> a < totalWei)
                 then [(TokenApprove totalWei, b)] else [])"
proof -
  obtain ra s1 where al: "invoke TokenAllowance (token_allowance R) s = (ra, s1)"
    by (cases "invoke TokenAllowance (token_allowance R) s")
  note c1 = invoke_calls' [OF al]
  show ?thesis
  proof (cases "\<exists>a. ra = Inr a \<and> a < totalWei")
    case False
    then have "s' = s1" using assms al by (cases ra) (auto simp: ui_authorize_def)
    moreover have "\<not> (\<exists>a. token_allowance R (length (calls s)) = Inr a \<and> a < totalWei)"
      using False c1(2) by auto
    ultimately show ?thesis
      using c1(1) by (intro exI [of _ "[(TokenAllowance, \<not> isl ra)]"]) simp
  next
    case True
    then obtain a where a: "ra = Inr a" "a < totalWei" by blast
    then have need: "\<exists>a. token_allowance R (length (calls s)) = Inr a \<and> a < totalWei"
      using c1(2) by auto
    obtain rb s2 where ap: "invoke (TokenApprove totalWei) (\<lambda>k. token_approve R k totalWei) s1
                              = (rb, s2)"
      by (cases "invoke (TokenApprove totalWei) (\<lambda>k. token_approve R k totalWei) s1")
    note c2 = invoke_calls' [OF ap]
    show ?thesis
    proof (cases rb)
      case (Inl e)
      then have "s' = s2" using assms al a ap by (auto simp: ui_authorize_def)
      with c1(1) c2(1) need show ?thesis
        by (intro exI [of _ "[(TokenAllowance, \<not> isl ra), (TokenApprove totalWei, \<not> isl rb)]"]
                  exI [of _ "\<not> isl rb"]) simp
    next
      case (Inr tx)
      obtain rc s3 where wt: "invoke (TxWait tx) (\<lambda>k. tx_wait R k tx) s2 = (rc, s3)"
        by (cases "invoke (TxWait tx) (\<lambda>k. tx_wait R k tx) s2")
      note c3 = invoke_calls' [OF wt]
      have "s' = s3" using assms al a ap Inr wt by (cases rc) (auto simp: ui_authorize_def)
      with c1(1) c2(1) c3(1) need show ?thesis
        by (intro exI [of _ "[(TokenAllowance, \<not> isl ra), (TokenApprove totalWei, \<not> isl rb),
                               (TxWait tx, \<not> isl rc)]"]
                  exI [of _ "\<not> isl rb"]) simp
    qed
  qed
qed

lemma onSend_phases:
  assumes "onSend L R u s = Some (st, s')"
    and "ui_connected u" and "ui_tokenAddress u \<noteq> []" and "ui_batchAddress u \<noteq> []"
    and "ui_decimals u \<noteq> None"
    and "entries (normalized L (ui_decimals u) (ui_rows u)) \<noteq> []"
  shows "\<exists>ra s1 s2.
           ui_authorize R
             (sum_list (map amountWei (entries (normalized L (ui_decimals u) (ui_rows u))))) s
             = (ra, s1)
           \<and> extends (\<lambda>r. r = GetBlock \<or> isEstimate r) s1 s2
           \<and> extends (\<lambda>r. isBatch r \<or> isWait r) s2 s'"
proof -
  let ?es = "entries (normalized L (ui_decimals u) (ui_rows u))"
  let ?totalWei = "sum_list (map amountWei ?es)"
  obtain ra s1 where au: "ui_authorize R ?totalWei s = (ra, s1)"
    by (cases "ui_authorize R ?totalWei s")
  show ?thesis
  proof (cases ra)
    case (Inl e)
    with assms au have "s' = s1" by (auto simp: onSend_def Let_def)
    with au show ?thesis by (intro exI [of _ ra] exI [of _ s1]) simp
  next
    case (Inr un)
    from assms au Inr obtain r2 s2 where
      est: "estimateChunkSize L R u (map address ?es) (map amountWei ?es)
              (min (length ?es) 512) s1 = Some (r2, s2)"
      by (auto simp: onSend_def Let_def split: option.splits prod.splits)
    have e2: "extends (\<lambda>r. r = GetBlock \<or> isEstimate r) s1 s2"
      using est by (rule estimateChunkSize_extends)
    show ?thesis
    proof (cases r2)
      case (Inl e)
      with assms au Inr est have "s' = s2" by (auto simp: onSend_def Let_def)
      with au e2 show ?thesis by (intro exI [of _ ra] exI [of _ s1] exI [of _ s2]) simp
    next
      case cs: (Inr cSize)
      from assms au Inr est cs have "\<exists>pairs r3. ui_sendChunks R pairs s2 = (r3, s')"
        by (auto simp: onSend_def Let_def split: option.splits prod.splits sum.splits)
      then obtain pairs r3 where "ui_sendChunks R pairs s2 = (r3, s')" by blast
      with ui_sendChunks_extends [of s2 R pairs]
      have "extends (\<lambda>r. isBatch r \<or> isWait r) s2 s'" by simp
      with au e2 show ?thesis by blast
    qed
  qed
qed

lemma onSend_approve_once:
  assumes "onSend L R u s = Some (st, s')"
    and "ui_connected u" and "ui_tokenAddress u \<noteq> []" and "ui_batchAddress u \<noteq> []"
    and "ui_decimals u \<noteq> None"
    and "entries (normalized L (ui_decimals u) (ui_rows u)) \<noteq> []"
  shows "\<exists>b pre post.
           calls s' = calls s @ pre @ post
         \<and> (\<forall>c \<in> set pre. \<not> isBatch (fst c))
         \<and> (\<forall>c \<in> set post. \<not> isApprove (fst c))
         \<and> filter (\<lambda>c. isApprove (fst c)) pre
             = (if (\<exists>a. token_allowance R (length (calls s)) = Inr a
                        \<and> a < sum_list (map amountWei
                                (entries (normalized L (ui_decimals u) (ui_rows u)))))
                then [(TokenApprove
                         (sum_list (map amountWei
                            (entries (normalized L (ui_decimals u) (ui_rows u))))), b)]
                else [])"
proof -
  let ?totalWei = "sum_list (map amountWei (entries (normalized L (ui_decimals u) (ui_rows u))))"
  from onSend_phases [OF assms] obtain ra s1 s2 where
    au: "ui_authorize R ?totalWei s = (ra, s1)"
    and e2: "extends (\<lambda>r. r = GetBlock \<or> isEstimate r) s1 s2"
    and e3: "extends (\<lambda>r. isBatch r \<or> isWait r) s2 s'"
    by blast
  from ui_authorize_calls [OF au] obtain A b where
    A: "calls s1 = calls s @ A" "\<forall>c \<in> set A. isAuthorization (fst c)"
    and fA: "filter (\<lambda>c. isApprove (fst c)) A
              = (if (\<exists>a. token_allowance R (length (calls s)) = Inr a \<and> a < ?totalWei)
                 then [(TokenApprove ?totalWei, b)] else [])"
    by blast
  from e2 obtain G where
    G: "calls s2 = calls s1 @ G" "\<forall>c \<in> set G. fst c = GetBlock \<or> isEstimate (fst c)"
    by (auto simp: extends_iff)
  from e3 obtain S where
    S: "calls s' = calls s2 @ S" "\<forall>c \<in> set S. isBatch (fst c) \<or> isWait (fst c)"
    by (auto simp: extends_iff)
  have nb: "\<forall>c \<in> set (A @ G). \<not> isBatch (fst c)"
    using A(2) G(2) isAuthorization_not_batch isAuthorization_not_estimate_batch
    by (auto simp: isEstimate_not_batch)
  have na: "\<forall>c \<in> set S. \<not> isApprove (fst c)"
  proof
    fix c assume "c \<in> set S"
    with S(2) have "isBatch (fst c) \<or> isWait (fst c)" by blast
    then show "\<not> isApprove (fst c)" by (cases "fst c") auto
  qed
  have fG: "filter (\<lambda>c. isApprove (fst c)) G = []"
    using G(2) isAuthorization_not_estimate_batch by (auto simp: filter_empty_conv)
  have "calls s' = calls s @ (A @ G) @ S"
    using A(1) G(1) S(1) by simp
  moreover have "filter (\<lambda>c. isApprove (fst c)) (A @ G)
              = (if (\<exists>a. token_allowance R (length (calls s)) = Inr a \<and> a < ?totalWei)
                 then [(TokenApprove ?totalWei, b)] else [])"
    using fA fG by simp
  ultimately show ?thesis
    using nb na by blast
qed

text \<open>
  Claim C7. For a token-style asset, the remote invocations of a run split into a first
  part without any chunk submission and a second part without any \<^verbatim>\<open>approve\<close>: every
  \<^verbatim>\<open>approve\<close> comes before the first chunk is submitted, none comes with a chunk. The
  \<^verbatim>\<open>approve\<close> invocations are those of one request: none at all unless the allowance
  query returned less than the total of the working set, and otherwise, in the script,
  the invocations of one call through \<open>callWithRetry\<close> (attempts that throw, then a last
  one), in the UI one invocation; each of them asks for exactly that total.
\<close>

theorem approve_once_before_the_first_chunk:
  "(\<not> isNative cfg \<longrightarrow>
    main_validate L cfg R input w = (Inr validEntries, K, cps, w2) \<longrightarrow>
    main L cfg R input w = Some (res, K', cps', w') \<longrightarrow>
      (\<exists>n b pre post.
           calls (rpc w') = calls (rpc w) @ pre @ post
         \<and> (\<forall>c \<in> set pre. \<not> isBatch (fst c))
         \<and> (\<forall>c \<in> set post. \<not> isApprove (fst c))
         \<and> filter (\<lambda>c. isApprove (fst c)) pre
             = (if (\<exists>a s1. callWithRetry cfg R TokenAllowance (token_allowance R) (rpc w2)
                              = (Inr a, s1)
                          \<and> a < sum_list (map amt validEntries))
                then replicate n (TokenApprove (sum_list (map amt validEntries)), False)
                       @ [(TokenApprove (sum_list (map amt validEntries)), b)]
                else [])))
   \<and> (ui_connected u \<longrightarrow> ui_tokenAddress u \<noteq> [] \<longrightarrow> ui_batchAddress u \<noteq> [] \<longrightarrow>
      ui_decimals u \<noteq> None \<longrightarrow>
      entries (normalized L (ui_decimals u) (ui_rows u)) \<noteq> [] \<longrightarrow>
      onSend L R u s = Some (st, s') \<longrightarrow>
      (\<exists>b pre post.
           calls s' = calls s @ pre @ post
         \<and> (\<forall>c \<in> set pre. \<not> isBatch (fst c))
         \<and> (\<forall>c \<in> set post. \<not> isApprove (fst c))
         \<and> filter (\<lambda>c. isApprove (fst c)) pre
             = (if (\<exists>a. token_allowance R (length (calls s)) = Inr a
                        \<and> a < sum_list (map amountWei
                                (entries (normalized L (ui_decimals u) (ui_rows u)))))
                then [(TokenApprove
                         (sum_list (map amountWei
                            (entries (normalized L (ui_decimals u) (ui_rows u))))), b)]
                else [])))"
  using main_approve_once [of cfg L R input w validEntries K cps w2 res K' cps' w']
        onSend_approve_once [of L R u s st s']
  by blast

theorem approve_once_before_the_first_chunk_witness:
  "\<not> isNative demo_config
   \<and> main_validate demo_lib demo_config demo_remote demo_entries (world0 Absent)
       = (Inr demo_valid, [], [], demo_validated)
   \<and> main demo_lib demo_config demo_remote demo_entries (world0 Absent)
       = Some (Inr (), [''AAA|100'', ''BBB|50.5'', ''CCC|25''], demo_checkpoint, demo_done)
   \<and> filter (\<lambda>c. isApprove (fst c)) (calls (rpc demo_done)) = [(TokenApprove 630, True)]
   \<and> (\<exists>n b pre post.
           calls (rpc demo_done) = calls (rpc (world0 Absent)) @ pre @ post
         \<and> (\<forall>c \<in> set pre. \<not> isBatch (fst c))
         \<and> (\<forall>c \<in> set post. \<not> isApprove (fst c))
         \<and> filter (\<lambda>c. isApprove (fst c)) pre
             = (if (\<exists>a s1. callWithRetry demo_config demo_remote TokenAllowance
                              (token_allowance demo_remote) (rpc demo_validated) = (Inr a, s1)
                          \<and> a < sum_list (map amt demo_valid))
                then replicate n (TokenApprove (sum_list (map amt demo_valid)), False)
                       @ [(TokenApprove (sum_list (map amt demo_valid)), b)]
                else []))
   \<and> onSend demo_lib demo_remote demo_ui rpc0 = Some (Done 1 1, demo_ui_done)
   \<and> filter (\<lambda>c. isApprove (fst c)) (calls demo_ui_done) = [(TokenApprove 100, True)]
   \<and> (\<exists>b pre post.
           calls demo_ui_done = calls rpc0 @ pre @ post
         \<and> (\<forall>c \<in> set pre. \<not> isBatch (fst c))
         \<and> (\<forall>c \<in> set post. \<not> isApprove (fst c))
         \<and> filter (\<lambda>c. isApprove (fst c)) pre
             = (if (\<exists>a. token_allowance demo_remote (length (calls rpc0)) = Inr a
                        \<and> a < sum_list (map amountWei
                                (entries (normalized demo_lib (ui_decimals demo_ui)
                                            (ui_rows demo_ui)))))
                then [(TokenApprove
                         (sum_list (map amountWei
                            (entries (normalized demo_lib (ui_decimals demo_ui)
                                        (ui_rows demo_ui))))), b)]
                else []))"
proof -
  have h1: "\<not> isNative demo_config" by (simp add: demo_config_def)
  have h2: "main_validate demo_lib demo_config demo_remote demo_entries (world0 Absent)
       = (Inr demo_valid, [], [], demo_validated)"
    by (simp add: run_defs demo_validated_def)
  have h3: "main demo_lib demo_config demo_remote demo_entries (world0 Absent)
       = Some (Inr (), [''AAA|100'', ''BBB|50.5'', ''CCC|25''], demo_checkpoint, demo_done)"
    by (simp add: run_defs demo_done_def demo_checkpoint_def)
  have f1: "filter (\<lambda>c. isApprove (fst c)) (calls (rpc demo_done)) = [(TokenApprove 630, True)]"
    by (simp add: demo_done_def)
  have g1: "ui_connected demo_ui" and g2: "ui_tokenAddress demo_ui \<noteq> []"
    and g3: "ui_batchAddress demo_ui \<noteq> []" and g4: "ui_decimals demo_ui \<noteq> None"
    by (simp_all add: demo_ui_def)
  have g5: "entries (normalized demo_lib (ui_decimals demo_ui) (ui_rows demo_ui)) \<noteq> []"
    by (simp add: normalized_def demo_ui_def demo_lib_def toUpperCase_def set_add_def char_of_65
          Let_def)
  have g6: "onSend demo_lib demo_remote demo_ui rpc0 = Some (Done 1 1, demo_ui_done)"
    by (simp add: onSend_def normalized_def ui_authorize_def estimateChunkSize_def
          estCount_def run_defs demo_ui_def demo_ui_done_def)
  have f2: "filter (\<lambda>c. isApprove (fst c)) (calls demo_ui_done) = [(TokenApprove 100, True)]"
    by (simp add: demo_ui_done_def)
  note inst = approve_once_before_the_first_chunk
    [where cfg = demo_config and L = demo_lib and R = demo_remote and input = demo_entries
       and w = "world0 Absent" and validEntries = demo_valid and K = "[]" and cps = "[]"
       and ?w2.0 = demo_validated and res = "Inr ()"
       and K' = "[''AAA|100'', ''BBB|50.5'', ''CCC|25'']" and cps' = demo_checkpoint
       and w' = demo_done and u = demo_ui and s = rpc0 and st = "Done 1 1"
       and s' = demo_ui_done]
  note script = inst [THEN conjunct1, rule_format, OF h1 h2 h3]
  note ui = inst [THEN conjunct2, rule_format, OF g1 g2 g3 g4 g5 g6]
  show ?thesis
    by (intro conjI) (rule h1, rule h2, rule h3, rule f1, rule script, rule g6, rule f2, rule ui)
qed

end
